theory Spec2Isabelle
  imports Complex_Main "HOL-Library.Word" "HOL-Library.Signed_Division" "HOL-Library.Multiset"
begin

section \<open>Decoding morse code from video: the data model\<close>

text \<open>
  The decoder of \<^verbatim>\<open>video-morse-decode.cpp\<close> keeps, per analysed frame, the frame index and
  the average luminance of the selected area (\<^verbatim>\<open>struct Frame\<close>), and, per pulse or break, its
  state and its length in frames (\<^verbatim>\<open>struct Signal\<close>). All four fields are \<^verbatim>\<open>unsigned\<close>,
  read here as 32-bit words. The mean luminance is an \<^verbatim>\<open>int\<close> that the code only ever combines
  with \<^verbatim>\<open>unsigned\<close> operands, so every operation on it is the unsigned one on the same 32 bits.

  The code has no error values. Where the C++ has undefined behaviour or throws (an integer
  division by zero, an index past the end of a vector, a dereference of the end of an empty
  map, a signed overflow, a vector of negative size, the conversion to \<^verbatim>\<open>int\<close> of a
  \<^verbatim>\<open>double\<close> whose truncation is no \<^verbatim>\<open>int\<close>), the model returns a \<open>fault\<close>. \<open>and_then\<close>
  runs the next step on the result of a step that did not fault, and \<open>for_each\<close> is a loop
  over a list whose body may fault.
\<close>

datatype fault =
    DivisionByZero
  | IndexOutOfRange
  | EmptyMapAccess
  | SignedOverflow
  | LengthError
  | ConversionOverflow

definition and_then :: "fault + 'a \<Rightarrow> ('a \<Rightarrow> fault + 'b) \<Rightarrow> fault + 'b" where
  "and_then r f = (case r of Inl e \<Rightarrow> Inl e | Inr x \<Rightarrow> f x)"

fun for_each :: "'a list \<Rightarrow> ('a \<Rightarrow> 'b \<Rightarrow> fault + 'b) \<Rightarrow> 'b \<Rightarrow> fault + 'b" where
  "for_each [] body acc = Inr acc"
| "for_each (x # xs) body acc = and_then (body x acc) (for_each xs body)"

record Frame =
  time :: "32 word"
  luminance :: "32 word"

record Signal =
  state :: "32 word"
  duration :: "32 word"

section \<open>The luminance histogram and its mean\<close>

text \<open>
  \<^verbatim>\<open>processFrame\<close> computes the luminance \<open>t\<close> of a frame from its pixels (outside the
  model; an average of values clamped to 0..255) and then runs
  \<^verbatim>\<open>m_frame_luminance_histogram[t]++\<close> and \<^verbatim>\<open>m_frames.push_back(f)\<close>. The histogram is
  the 256-entry vector the constructor allocates.
\<close>

definition processFrame :: "32 word list \<Rightarrow> Frame \<Rightarrow> 32 word list" where
  "processFrame hist f = hist[unat (luminance f) := hist ! unat (luminance f) + 1]"

definition frame_histogram :: "Frame list \<Rightarrow> 32 word list" where
  "frame_histogram frames = foldl processFrame (replicate 256 0) frames"

text \<open>
  \<^verbatim>\<open>calculateHistogram\<close>: two nested loops over \<open>i, j < 16\<close> accumulate
  \<open>n * hist[n]\<close> and \<open>hist[n]\<close> for \<open>n = i * 16 + j\<close>; then \<^verbatim>\<open>m_mean_luminance /= sum\<close>.
\<close>

definition histogram_step :: "32 word list \<Rightarrow> nat \<Rightarrow> nat \<Rightarrow> 32 word \<times> 32 word \<Rightarrow> 32 word \<times> 32 word" where
  "histogram_step hist i j acc =
     (let n = i * 16 + j
      in (fst acc + of_nat n * hist ! n, snd acc + hist ! n))"

definition histogram_sums :: "32 word list \<Rightarrow> 32 word \<times> 32 word" where
  "histogram_sums hist =
     fold (\<lambda>i. fold (histogram_step hist i) [0..<16]) [0..<16] (0, 0)"

definition calculateHistogram :: "32 word list \<Rightarrow> fault + 32 word" where
  "calculateHistogram hist =
     (let (mean_luminance, sum) = histogram_sums hist
      in if sum = 0 then Inl DivisionByZero else Inr (mean_luminance div sum))"

section \<open>State changes\<close>

text \<open>
  \<^verbatim>\<open>processStateChanges\<close> walks the frames with \<open>last_state = 0\<close> and \<open>last_time = 0\<close>. A frame
  is in state 0 when its luminance is below the mean and in state 1 otherwise; when the state
  differs from the last one, a signal with the last state and the duration
  \<open>frame.time - last_time\<close> is appended. Nothing follows the loop.
\<close>

fun state_changes :: "32 word \<Rightarrow> 32 word \<Rightarrow> 32 word \<Rightarrow> Frame list \<Rightarrow> Signal list" where
  "state_changes mean_luminance last_state last_time [] = []"
| "state_changes mean_luminance last_state last_time (frame # frames) =
     (let st = (if luminance frame < mean_luminance then 0 else 1)
      in if st \<noteq> last_state
         then \<lparr>state = last_state, duration = time frame - last_time\<rparr>
              # state_changes mean_luminance st (time frame) frames
         else state_changes mean_luminance st last_time frames)"

definition processStateChanges :: "32 word \<Rightarrow> Frame list \<Rightarrow> Signal list" where
  "processStateChanges mean_luminance frames = state_changes mean_luminance 0 0 frames"

section \<open>String replacement\<close>

text \<open>
  \<^verbatim>\<open>std::string::find\<close>: the position of the first occurrence of \<open>from\<close>, or \<open>npos\<close>
  (here \<open>None\<close>).
\<close>

fun string_find :: "string \<Rightarrow> string \<Rightarrow> nat option" where
  "string_find [] from = (if from = [] then Some 0 else None)"
| "string_find (c # cs) from =
     (if take (length from) (c # cs) = from then Some 0
      else map_option Suc (string_find cs from))"

text \<open>
  \<^verbatim>\<open>replace\<close> replaces the first occurrence of \<open>from\<close> by \<open>to\<close> in place and returns whether
  it found one; the model returns the new string, or \<open>None\<close> for \<^verbatim>\<open>false\<close>.
\<close>

definition replace :: "string \<Rightarrow> string \<Rightarrow> string \<Rightarrow> string option" where
  "replace input from to =
     (case string_find input from of
        None \<Rightarrow> None
      | Some start_pos \<Rightarrow> Some (take start_pos input @ to @ drop (start_pos + length from) input))"

text \<open>
  \<^verbatim>\<open>replace_all\<close> is \<^verbatim>\<open>while (replace(out, from, to));\<close>. The loop need not end (take
  \<open>to\<close> containing \<open>from\<close>), so not returning is the value \<open>None\<close>.
\<close>

partial_function (option) replace_all :: "string \<Rightarrow> string \<Rightarrow> string \<Rightarrow> string option" where
  "replace_all out from to =
     (case replace out from to of
        None \<Rightarrow> Some out
      | Some out' \<Rightarrow> replace_all out' from to)"

declare replace_all.simps [code]

section \<open>The symbol table\<close>

definition morse_symbols :: "(string \<times> string) list" where
  "morse_symbols =
    [(''.-'', ''A''), (''-...'', ''B''), (''-.-.'', ''C''), (''-..'', ''D''), (''.'', ''E''),
     (''..-.'', ''F''), (''--.'', ''G''), (''....'', ''H''), (''..'', ''I''), (''.---'', ''J''),
     (''-.-'', ''K''), (''.-..'', ''L''), (''--'', ''M''), (''-.'', ''N''), (''---'', ''O''),
     (''.--.'', ''P''), (''--.-'', ''Q''), (''.-.'', ''R''), (''...'', ''S''), (''-'', ''T''),
     (''..-'', ''U''), (''...-'', ''V''), (''.--'', ''W''), (''-..-'', ''X''), (''-.--'', ''Y''),
     (''--..'', ''Z''), (''-----'', ''0''), (''.----'', ''1''), (''..---'', ''2''),
     (''...--'', ''3''), (''....-'', ''4''), (''.....'', ''5''), (''-....'', ''6''),
     (''--...'', ''7''), (''---..'', ''8''), (''----.'', ''9''), (''---...'', '':''),
     (''-....-'', ''-''), (''.-.-.-'', ''.'')]"

text \<open>The loop of \<^verbatim>\<open>decodeMorse\<close> over the table, in table order.\<close>

fun replace_symbols :: "(string \<times> string) list \<Rightarrow> string \<Rightarrow> string option" where
  "replace_symbols [] out = Some out"
| "replace_symbols (m # ms) out =
     (case replace_all out ('' '' @ fst m @ '' '') ('' '' @ snd m @ '' '') of
        None \<Rightarrow> None
      | Some out' \<Rightarrow> replace_symbols ms out')"

definition decodeMorse :: "string \<Rightarrow> string option" where
  "decodeMorse inp =
     (case replace_symbols morse_symbols inp of
        None \<Rightarrow> None
      | Some out \<Rightarrow>
          (case replace_all out '' '' [] of
             None \<Rightarrow> None
           | Some out' \<Rightarrow> replace_all out' ''|'' '' ''))"

section \<open>Local maximums of a smoothed histogram\<close>

definition sign :: "int \<Rightarrow> int" where
  "sign x = (if x > 0 then 1 else if x < 0 then - 1 else 0)"

text \<open>
  The source does not fix the arithmetic of \<^verbatim>\<open>double\<close>: how a quotient, a product or a sum
  is rounded, what \<^verbatim>\<open>sqrt\<close> and \<^verbatim>\<open>pow\<close> of the C library return, and which doubles
  \<^verbatim>\<open>M_PI\<close> and \<^verbatim>\<open>M_E\<close> are. The model takes them as a parameter. A double is read as the
  real number it stands for; the conversions of an \<^verbatim>\<open>int\<close> to \<^verbatim>\<open>double\<close> are exact, and
  so is the negation of a double. There is no infinity and no NaN in the model: the filter
  below calls \<^verbatim>\<open>gaussian\<close> with \<open>a = 1\<close> only and adds products of an \<^verbatim>\<open>int\<close> and a weight.
\<close>

record double_arithmetic =
  M_PI :: real
  M_E :: real
  dbl_divide :: "real \<Rightarrow> real \<Rightarrow> real"
  dbl_sqrt :: "real \<Rightarrow> real"
  dbl_pow :: "real \<Rightarrow> real \<Rightarrow> real"
  dbl_times :: "real \<Rightarrow> real \<Rightarrow> real"
  dbl_plus :: "real \<Rightarrow> real \<Rightarrow> real"

text \<open>\<^verbatim>\<open>gaussian\<close> is \<^verbatim>\<open>sqrt(a / M_PI) * pow(M_E, -a * x * x)\<close>.\<close>

definition gaussian :: "double_arithmetic \<Rightarrow> real \<Rightarrow> real \<Rightarrow> real" where
  "gaussian fp x a =
     dbl_times fp (dbl_sqrt fp (dbl_divide fp a (M_PI fp)))
       (dbl_pow fp (M_E fp) (dbl_times fp (dbl_times fp (- a) x) x))"

text \<open>
  The conversion of a double to \<^verbatim>\<open>int\<close> truncates towards zero, and is undefined when the
  truncated value is no \<^verbatim>\<open>int\<close>.
\<close>

definition trunc :: "real \<Rightarrow> int" where
  "trunc t = (if 0 \<le> t then \<lfloor>t\<rfloor> else \<lceil>t\<rceil>)"

definition double_to_int :: "real \<Rightarrow> fault + int" where
  "double_to_int t =
     (if - 2147483649 < t \<and> t < 2147483648 then Inr (trunc t) else Inl ConversionOverflow)"

text \<open>
  A \<^verbatim>\<open>std::map<int, int>\<close> is the list of its entries in key order. \<open>histogram_vector\<close> is the
  loop \<^verbatim>\<open>s[e.first] = e.second\<close> into a vector of \<open>n\<close> zeros.
\<close>

definition histogram_vector :: "(int \<times> int) list \<Rightarrow> nat \<Rightarrow> int list" where
  "histogram_vector vf n = fold (\<lambda>e s. s[nat (fst e) := snd e]) vf (replicate n 0)"

text \<open>
  The gaussian filter. The body of the inner loop computes \<^verbatim>\<open>int k = i + j\<close>, which must
  not exceed \<^verbatim>\<open>INT_MAX\<close>, and adds \<^verbatim>\<open>(double)s[k] * gaussian(j, 1)\<close> to \<open>t\<close> when \<open>k\<close> is
  an index of \<open>s\<close>. The inner loop runs \<open>j\<close> from \<^verbatim>\<open>-window_size\<close> to below
  \<^verbatim>\<open>window_size+1\<close>, two expressions that must not overflow; then \<^verbatim>\<open>o[i] = t\<close> converts
  the double. The outer loop fills the vector \<open>o\<close> of \<^verbatim>\<open>s.size()\<close> zeros.
\<close>

definition filter_term :: "double_arithmetic \<Rightarrow> int list \<Rightarrow> nat \<Rightarrow> int \<Rightarrow> real \<Rightarrow> real" where
  "filter_term fp s i j t =
     (let k = int i + j
      in if 0 \<le> k \<and> k < int (length s)
         then dbl_plus fp t (dbl_times fp (real_of_int (s ! nat k)) (gaussian fp (real_of_int j) 1))
         else t)"

definition filter_step ::
  "double_arithmetic \<Rightarrow> int list \<Rightarrow> nat \<Rightarrow> int \<Rightarrow> real \<Rightarrow> fault + real" where
  "filter_step fp s i j t =
     (if 2147483647 < int i + j then Inl SignedOverflow else Inr (filter_term fp s i j t))"

definition filter_value :: "double_arithmetic \<Rightarrow> int list \<Rightarrow> int \<Rightarrow> nat \<Rightarrow> fault + int" where
  "filter_value fp s window_size i =
     (if window_size = - 2147483648 \<or> window_size = 2147483647 then Inl SignedOverflow
      else and_then (for_each [- window_size..window_size] (filter_step fp s i) 0) double_to_int)"

definition gaussian_filter :: "double_arithmetic \<Rightarrow> int list \<Rightarrow> int \<Rightarrow> fault + int list" where
  "gaussian_filter fp s window_size =
     for_each [0..<length s]
       (\<lambda>i ov. and_then (filter_value fp s window_size i) (\<lambda>t. Inr (ov[i := t])))
       (replicate (length s) 0)"

text \<open>
  The scan for local maximums keeps the sign \<open>d\<close> of the current difference, the sign \<open>ld\<close> of
  the last one, and the turning points \<open>tp\<close> found so far. The difference \<^verbatim>\<open>o[i] - o[i - 1]\<close>
  must not overflow. \<open>turning_points\<close> adds the last index when the last difference is
  positive.
\<close>

definition turning_term ::
  "int list \<Rightarrow> nat \<Rightarrow> int \<times> int \<times> (int \<times> int) list \<Rightarrow> int \<times> int \<times> (int \<times> int) list" where
  "turning_term ov i =
     (\<lambda>(d, ld, tp).
        let d' = sign (ov ! i - ov ! (i - 1))
        in (d', d',
            if (ld = 1 \<or> ld = 0) \<and> d' = - 1 then tp @ [(int i - 1, ov ! (i - 1))] else tp))"

definition turning_step ::
  "int list \<Rightarrow> nat \<Rightarrow> int \<times> int \<times> (int \<times> int) list
     \<Rightarrow> fault + int \<times> int \<times> (int \<times> int) list" where
  "turning_step ov i acc =
     (if ov ! i - ov ! (i - 1) < - 2147483648 \<or> 2147483647 < ov ! i - ov ! (i - 1)
      then Inl SignedOverflow
      else Inr (turning_term ov i acc))"

definition turning_points :: "int list \<Rightarrow> fault + (int \<times> int) list" where
  "turning_points ov =
     and_then (for_each [1..<length ov] (turning_step ov) (0, 0, []))
       (\<lambda>(d, ld, tp).
          let i = max 1 (length ov)
          in Inr (if d > 0 then tp @ [(int i - 1, ov ! (i - 1))] else tp))"

text \<open>The loop \<^verbatim>\<open>while (count && tpi != tp.end())\<close> that copies the first points.\<close>

fun first_points :: "int \<Rightarrow> (int \<times> int) list \<Rightarrow> int list" where
  "first_points count' [] = []"
| "first_points count' (p # tp) =
     (if count' = 0 then [] else fst p # first_points (count' - 1) tp)"

text \<open>
  \<^verbatim>\<open>get_local_maximums\<close>. The vector \<open>s\<close> has \<^verbatim>\<open>vf.rbegin()->first + 1\<close> entries: the
  map must not be empty, its largest key (an \<^verbatim>\<open>int\<close>) must be below \<^verbatim>\<open>INT_MAX\<close>, the size
  must not be negative, and every key must index into \<open>s\<close>.

  \<^verbatim>\<open>std::sort\<close> with the comparison \<^verbatim>\<open>a.second > b.second\<close> returns the points in some
  order that descends by frequency; the order of points of equal frequency is up to the
  library. The sort is the parameter \<open>srt\<close> of the model. (The parameter \<^verbatim>\<open>count\<close> is
  \<open>count'\<close> here.)
\<close>

definition get_local_maximums ::
  "double_arithmetic \<Rightarrow> ((int \<times> int) list \<Rightarrow> (int \<times> int) list)
     \<Rightarrow> (int \<times> int) list \<Rightarrow> int \<Rightarrow> int \<Rightarrow> fault + int list" where
  "get_local_maximums fp srt vf count' window_size =
     (if vf = [] then Inl EmptyMapAccess
      else if 2147483647 \<le> fst (last vf) then Inl SignedOverflow
      else if fst (last vf) + 1 < 0 then Inl LengthError
      else if list_ex (\<lambda>e. fst e < 0 \<or> fst (last vf) + 1 \<le> fst e) vf then Inl IndexOutOfRange
      else
        and_then (gaussian_filter fp (histogram_vector vf (nat (fst (last vf) + 1))) window_size)
          (\<lambda>ov. and_then (turning_points ov)
             (\<lambda>tp. Inr (first_points count' (srt tp)))))"

section \<open>From signals to morse\<close>

record Report =
  hist_off :: "(int \<times> int) list"
  hist_on :: "(int \<times> int) list"
  off_time_peaks :: "int list"
  off_thresholds :: "int list"
  on_time_peaks :: "int list"
  on_thresholds :: "int list"
  morse :: string

text \<open>\<^verbatim>\<open>hist[key]++\<close> on a \<^verbatim>\<open>std::map<int, int>\<close>: a missing key is inserted in key order.\<close>

fun map_increment :: "int \<Rightarrow> (int \<times> int) list \<Rightarrow> (int \<times> int) list" where
  "map_increment k [] = [(k, 1)]"
| "map_increment k (e # es) =
     (if k = fst e then (k, snd e + 1) # es
      else if k < fst e then (k, 1) # e # es
      else e # map_increment k es)"

text \<open>The \<^verbatim>\<open>unsigned\<close> duration becomes an \<^verbatim>\<open>int\<close> key: the same 32 bits, read signed.\<close>

definition duration_histograms :: "Signal list \<Rightarrow> (int \<times> int) list \<times> (int \<times> int) list" where
  "duration_histograms signals =
     fold (\<lambda>signal (off_hist, on_hist).
             if state signal = 0
             then (map_increment (sint (duration signal)) off_hist, on_hist)
             else (off_hist, map_increment (sint (duration signal)) on_hist))
       signals ([], [])"

text \<open>
  \<^verbatim>\<open>peaks[i]\<close> past the end of the vector is undefined in the C++, which does not check
  the index, and a fault here. \<^verbatim>\<open>(a + b) / 2\<close> on \<^verbatim>\<open>int\<close> truncates towards zero and must
  not overflow.
\<close>

definition vector_at :: "'a list \<Rightarrow> nat \<Rightarrow> fault + 'a" where
  "vector_at xs i = (if i < length xs then Inr (xs ! i) else Inl IndexOutOfRange)"

definition midpoint :: "int \<Rightarrow> int \<Rightarrow> fault + int" where
  "midpoint a b =
     (if a + b < - 2147483648 \<or> 2147483647 < a + b then Inl SignedOverflow
      else Inr ((a + b) sdiv 2))"

definition peak_midpoint :: "int list \<Rightarrow> nat \<Rightarrow> nat \<Rightarrow> fault + int" where
  "peak_midpoint peaks i j =
     and_then (vector_at peaks i) (\<lambda>a. and_then (vector_at peaks j) (\<lambda>b. midpoint a b))"

text \<open>
  The comparisons of the \<^verbatim>\<open>unsigned\<close> duration with an \<^verbatim>\<open>int\<close> threshold convert the
  threshold to \<^verbatim>\<open>unsigned\<close>.
\<close>

definition morse_token :: "int list \<Rightarrow> int list \<Rightarrow> Signal \<Rightarrow> string" where
  "morse_token off_t on_t signal =
     (if state signal = 0 then
        (if duration signal < word_of_int (off_t ! 0) then []
         else if word_of_int (off_t ! 0) \<le> duration signal
                 \<and> duration signal < word_of_int (off_t ! 1) then '' ''
         else if word_of_int (off_t ! 1) \<le> duration signal then '' | ''
         else [])
      else
        (if duration signal < word_of_int (on_t ! 0) then ''.''
         else if word_of_int (on_t ! 0) \<le> duration signal then ''-''
         else []))"

definition processSignals ::
  "double_arithmetic \<Rightarrow> ((int \<times> int) list \<Rightarrow> (int \<times> int) list)
     \<Rightarrow> Signal list \<Rightarrow> fault + Report" where
  "processSignals fp srt signals =
     (let (off_hist, on_hist) = duration_histograms signals
      in and_then (get_local_maximums fp srt off_hist 3 3) (\<lambda>off_found.
         let off_peaks = sort off_found
         in and_then (peak_midpoint off_peaks 0 1) (\<lambda>off0.
            and_then (peak_midpoint off_peaks 1 2) (\<lambda>off1.
            and_then (get_local_maximums fp srt on_hist 2 3) (\<lambda>on_found.
            let on_peaks = sort on_found
            in and_then (peak_midpoint on_peaks 0 1) (\<lambda>on0.
               Inr \<lparr>hist_off = off_hist, hist_on = on_hist,
                    off_time_peaks = off_peaks, off_thresholds = [off0, off1],
                    on_time_peaks = on_peaks, on_thresholds = [on0],
                    morse = concat (map (morse_token [off0, off1] [on0]) signals)\<rparr>))))))"

section \<open>The whole run\<close>

text \<open>
  \<^verbatim>\<open>run\<close> after the frames are read: the histogram and its mean, the state changes, the
  signals, the decoded message. \<open>None\<close> stands for a run that does not return.
\<close>

record Decoded =
  frame_hist :: "32 word list"
  frame_hist_mean :: "32 word"
  report :: Report
  message :: string

definition run ::
  "double_arithmetic \<Rightarrow> ((int \<times> int) list \<Rightarrow> (int \<times> int) list)
     \<Rightarrow> Frame list \<Rightarrow> (fault + Decoded) option" where
  "run fp srt frames =
     (let hist = frame_histogram frames
      in case calculateHistogram hist of
           Inl e \<Rightarrow> Some (Inl e)
         | Inr mean_luminance \<Rightarrow>
             (case processSignals fp srt (processStateChanges mean_luminance frames) of
                Inl e \<Rightarrow> Some (Inl e)
              | Inr r \<Rightarrow>
                  map_option
                    (\<lambda>msg. Inr \<lparr>frame_hist = hist, frame_hist_mean = mean_luminance,
                                 report = r, message = msg\<rparr>)
                    (decodeMorse (morse r))))"

section \<open>Notions used in the statements\<close>

text \<open>The number of frames of luminance \<open>v\<close>: what bucket \<open>v\<close> of the histogram counts.\<close>

definition bucket :: "Frame list \<Rightarrow> nat \<Rightarrow> nat" where
  "bucket frames v = length (filter (\<lambda>f. unat (luminance f) = v) frames)"

text \<open>The number of characters of a string that satisfy \<open>P\<close>; the dots and dashes.\<close>

definition count_chars :: "(char \<Rightarrow> bool) \<Rightarrow> string \<Rightarrow> nat" where
  "count_chars P s = length (filter P s)"

definition dot_or_dash :: "char \<Rightarrow> bool" where
  "dot_or_dash c = (c = CHR ''.'' \<or> c = CHR ''-'')"

text \<open>
  Three frames, dark then bright twice: the bright run is still going on at the last frame.
\<close>

definition trailing_run_frames :: "Frame list" where
  "trailing_run_frames =
     [\<lparr>time = 0, luminance = 0\<rparr>, \<lparr>time = 1, luminance = 255\<rparr>, \<lparr>time = 2, luminance = 255\<rparr>]"

text \<open>Five frames that change state three times.\<close>

definition blinking_frames :: "Frame list" where
  "blinking_frames =
     [\<lparr>time = 0, luminance = 0\<rparr>, \<lparr>time = 1, luminance = 255\<rparr>, \<lparr>time = 2, luminance = 255\<rparr>,
      \<lparr>time = 3, luminance = 0\<rparr>, \<lparr>time = 4, luminance = 255\<rparr>]"



text \<open>\<open>n\<close> consecutive frames of luminance 255.\<close>

definition bright_frames :: "nat \<Rightarrow> Frame list" where
  "bright_frames n = map (\<lambda>i. \<lparr>time = of_nat i, luminance = 255\<rparr>) [0..<n]"

text \<open>
  The first difference of an array at position \<open>i\<close> (there is none at position 0, where the
  scan starts with the sign 0); the positions where it turns from non-negative to negative;
  and the candidate peaks the specification describes: index \<open>i - 1\<close> for every such
  position \<open>i\<close>, and the last index when the last difference is positive. Each candidate is
  paired with its smoothed frequency.
\<close>

definition first_difference :: "int list \<Rightarrow> nat \<Rightarrow> int" where
  "first_difference ov i = (if i = 0 then 0 else ov ! i - ov ! (i - 1))"

definition falls_at :: "int list \<Rightarrow> nat \<Rightarrow> bool" where
  "falls_at ov i = (0 \<le> first_difference ov (i - 1) \<and> first_difference ov i < 0)"

definition candidates :: "int list \<Rightarrow> (int \<times> int) list" where
  "candidates ov =
     map (\<lambda>i. (int i - 1, ov ! (i - 1))) (filter (falls_at ov) [1..<length ov])
     @ (if 0 < first_difference ov (length ov - 1)
        then [(int (length ov) - 1, ov ! (length ov - 1))] else [])"

text \<open>
  The double \<open>t\<close> that the inner loop of the gaussian filter computes for index \<open>i\<close>, and the
  smoothed array of a histogram: the dense vector after the gaussian filter, every \<open>t\<close>
  truncated.
\<close>

definition filter_sum :: "double_arithmetic \<Rightarrow> int list \<Rightarrow> int \<Rightarrow> nat \<Rightarrow> real" where
  "filter_sum fp s window_size i = fold (filter_term fp s i) [- window_size..window_size] 0"


text \<open>
  The arithmetic of the reals, without rounding. An arithmetic of doubles is accurate when,
  on a vector of 32-bit counts, the \<open>t\<close> it computes differs by at most a thousandth from the
  \<open>t\<close> of the reals. (With 53 bits of precision, counts below 2147483648 and weights that add up
  to about 1, the rounding errors of the double arithmetic stay far below that.)
\<close>

definition real_arithmetic :: double_arithmetic where
  "real_arithmetic =
     \<lparr>M_PI = pi, M_E = exp 1, dbl_divide = (/), dbl_sqrt = sqrt, dbl_pow = (powr),
      dbl_times = (*), dbl_plus = (+)\<rparr>"

definition accurate :: "double_arithmetic \<Rightarrow> bool" where
  "accurate fp =
     (\<forall>s window_size i.
        (\<forall>x\<in>set s. \<bar>x\<bar> \<le> 2147483648) \<longrightarrow>
        \<bar>filter_sum fp s window_size i - filter_sum real_arithmetic s window_size i\<bar> \<le> 1 / 1000)"

text \<open>
  What \<^verbatim>\<open>std::sort\<close> with the comparison \<^verbatim>\<open>a.second > b.second\<close> guarantees: the result
  is a permutation of the points, and no point is followed by one of greater frequency. The
  stable sort is one such sort.
\<close>

definition descending_permutation :: "((int \<times> int) list \<Rightarrow> (int \<times> int) list) \<Rightarrow> bool" where
  "descending_permutation srt =
     (\<forall>tp. mset (srt tp) = mset tp \<and> sorted_wrt (\<lambda>a b. snd b \<le> snd a) (srt tp))"

definition stable_sort_points :: "(int \<times> int) list \<Rightarrow> (int \<times> int) list" where
  "stable_sort_points tp = sort_key (\<lambda>p. - snd p) tp"

text \<open>
  The classification of a signal that the specification describes: a break (state 0) below
  the first threshold gives no token, a break from the first threshold to below the second a
  space, a break from the second threshold on a word separator; a pulse below the threshold
  gives a dot and a pulse from the threshold on a dash. The duration and the thresholds are
  compared as integers.
\<close>

definition classified :: "int \<Rightarrow> int \<Rightarrow> int \<Rightarrow> Signal \<Rightarrow> string \<Rightarrow> bool" where
  "classified off0 off1 on0 s token =
     (let d = uint (duration s)
      in (state s = 0 \<and> d < off0 \<longrightarrow> token = [])
       \<and> (state s = 0 \<and> off0 \<le> d \<and> d < off1 \<longrightarrow> token = '' '')
       \<and> (state s = 0 \<and> off1 \<le> d \<longrightarrow> token = '' | '')
       \<and> (state s \<noteq> 0 \<and> d < on0 \<longrightarrow> token = ''.'')
       \<and> (state s \<noteq> 0 \<and> on0 \<le> d \<longrightarrow> token = ''-''))"

text \<open>
  The report that the specification describes for signals whose breaks have the peaks
  \<open>off_found\<close> and whose pulses have the peaks \<open>on_found\<close>: the peaks in ascending order, and
  as thresholds the sums of adjacent peaks divided by 2 with truncation.
\<close>

definition report_of :: "Signal list \<Rightarrow> int list \<Rightarrow> int list \<Rightarrow> Report" where
  "report_of signals off_found on_found =
     (let off_peaks = sort off_found;
          on_peaks = sort on_found;
          off0 = (off_peaks ! 0 + off_peaks ! 1) sdiv 2;
          off1 = (off_peaks ! 1 + off_peaks ! 2) sdiv 2;
          on0 = (on_peaks ! 0 + on_peaks ! 1) sdiv 2
      in \<lparr>hist_off = fst (duration_histograms signals),
          hist_on = snd (duration_histograms signals),
          off_time_peaks = off_peaks, off_thresholds = [off0, off1],
          on_time_peaks = on_peaks, on_thresholds = [on0],
          morse = concat (map (morse_token [off0, off1] [on0]) signals)\<rparr>)"

text \<open>Frames with consecutive indices from 0 for a list of luminances.\<close>

definition frames_of :: "32 word list \<Rightarrow> Frame list" where
  "frames_of ls = map (\<lambda>i. \<lparr>time = of_nat i, luminance = ls ! i\<rparr>) [0..<length ls]"

text \<open>
  A light that is dark (10) for 7 frames and then sends dot dash, dash dot, a dash of 8 frames
  and a dash of 11 frames: dots of 2 frames, dashes of 5 frames, breaks of 1 frame inside a
  letter, of 4 and 7 frames between letters and of 13 frames between words. It is bright at
  the last frame. \<open>morse_signals\<close> are the signals of these frames.
\<close>

definition morse_frames :: "Frame list" where
  "morse_frames = frames_of
     (replicate 7 10 @ replicate 2 200 @ replicate 1 10 @ replicate 5 200 @ replicate 4 10
      @ replicate 5 200 @ replicate 1 10 @ replicate 2 200 @ replicate 13 10 @ replicate 8 200
      @ replicate 7 10 @ replicate 11 200 @ replicate 13 10 @ replicate 1 200)"

definition morse_signals :: "Signal list" where
  "morse_signals =
     [\<lparr>state = 0, duration = 7\<rparr>, \<lparr>state = 1, duration = 2\<rparr>, \<lparr>state = 0, duration = 1\<rparr>,
      \<lparr>state = 1, duration = 5\<rparr>, \<lparr>state = 0, duration = 4\<rparr>, \<lparr>state = 1, duration = 5\<rparr>,
      \<lparr>state = 0, duration = 1\<rparr>, \<lparr>state = 1, duration = 2\<rparr>, \<lparr>state = 0, duration = 13\<rparr>,
      \<lparr>state = 1, duration = 8\<rparr>, \<lparr>state = 0, duration = 7\<rparr>, \<lparr>state = 1, duration = 11\<rparr>,
      \<lparr>state = 0, duration = 13\<rparr>]"

text \<open>The report of these signals.\<close>

definition morse_report :: Report where
  "morse_report =
     \<lparr>hist_off = [(1, 2), (4, 1), (7, 2), (13, 2)],
      hist_on = [(2, 2), (5, 2), (8, 1), (11, 1)],
      off_time_peaks = [1, 7, 13], off_thresholds = [4, 10],
      on_time_peaks = [2, 5], on_thresholds = [3],
      morse = '' .- -. | - - | ''\<rparr>"

text \<open>
  SOS with every pulse 3 frames long and breaks of 2, 2, 6, 2, 2, 6, 2, 2 and 20 frames,
  bright 200 and dark 10; and the signals of these frames.
\<close>

definition sos_dots_frames :: "Frame list" where
  "sos_dots_frames = frames_of
     (replicate 3 200 @ replicate 2 10 @ replicate 3 200 @ replicate 2 10 @ replicate 3 200
      @ replicate 6 10
      @ replicate 3 200 @ replicate 2 10 @ replicate 3 200 @ replicate 2 10 @ replicate 3 200
      @ replicate 6 10
      @ replicate 3 200 @ replicate 2 10 @ replicate 3 200 @ replicate 2 10 @ replicate 3 200
      @ replicate 20 10)"

definition sos_dots_signals :: "Signal list" where
  "sos_dots_signals =
     [\<lparr>state = 0, duration = 0\<rparr>,
      \<lparr>state = 1, duration = 3\<rparr>, \<lparr>state = 0, duration = 2\<rparr>, \<lparr>state = 1, duration = 3\<rparr>,
      \<lparr>state = 0, duration = 2\<rparr>, \<lparr>state = 1, duration = 3\<rparr>, \<lparr>state = 0, duration = 6\<rparr>,
      \<lparr>state = 1, duration = 3\<rparr>, \<lparr>state = 0, duration = 2\<rparr>, \<lparr>state = 1, duration = 3\<rparr>,
      \<lparr>state = 0, duration = 2\<rparr>, \<lparr>state = 1, duration = 3\<rparr>, \<lparr>state = 0, duration = 6\<rparr>,
      \<lparr>state = 1, duration = 3\<rparr>, \<lparr>state = 0, duration = 2\<rparr>, \<lparr>state = 1, duration = 3\<rparr>,
      \<lparr>state = 0, duration = 2\<rparr>, \<lparr>state = 1, duration = 3\<rparr>]"

text \<open>
  SOS with dots of 3 frames and dashes of 9 and the same breaks: the first dot at frame 0,
  the break of 20 frames at the end.
\<close>

definition sos_bare_frames :: "Frame list" where
  "sos_bare_frames = frames_of
     (replicate 3 200 @ replicate 2 10 @ replicate 3 200 @ replicate 2 10 @ replicate 3 200
      @ replicate 6 10
      @ replicate 9 200 @ replicate 2 10 @ replicate 9 200 @ replicate 2 10 @ replicate 9 200
      @ replicate 6 10
      @ replicate 3 200 @ replicate 2 10 @ replicate 3 200 @ replicate 2 10 @ replicate 3 200
      @ replicate 20 10)"

definition sos_bare_signals :: "Signal list" where
  "sos_bare_signals =
     [\<lparr>state = 0, duration = 0\<rparr>,
      \<lparr>state = 1, duration = 3\<rparr>, \<lparr>state = 0, duration = 2\<rparr>, \<lparr>state = 1, duration = 3\<rparr>,
      \<lparr>state = 0, duration = 2\<rparr>, \<lparr>state = 1, duration = 3\<rparr>, \<lparr>state = 0, duration = 6\<rparr>,
      \<lparr>state = 1, duration = 9\<rparr>, \<lparr>state = 0, duration = 2\<rparr>, \<lparr>state = 1, duration = 9\<rparr>,
      \<lparr>state = 0, duration = 2\<rparr>, \<lparr>state = 1, duration = 9\<rparr>, \<lparr>state = 0, duration = 6\<rparr>,
      \<lparr>state = 1, duration = 3\<rparr>, \<lparr>state = 0, duration = 2\<rparr>, \<lparr>state = 1, duration = 3\<rparr>,
      \<lparr>state = 0, duration = 2\<rparr>, \<lparr>state = 1, duration = 3\<rparr>]"

section \<open>The mean luminance\<close>

subsection \<open>The two loops as sums over the 256 buckets\<close>

lemma fold_histogram_step:
  "fold (histogram_step hist i) js acc =
     (fst acc + (\<Sum>j\<leftarrow>js. of_nat (i * 16 + j) * hist ! (i * 16 + j)),
      snd acc + (\<Sum>j\<leftarrow>js. hist ! (i * 16 + j)))"
  by (induction js arbitrary: acc) (simp_all add: histogram_step_def Let_def algebra_simps)

lemma fold_fold_histogram_step:
  "fold (\<lambda>i. fold (histogram_step hist i) js) is acc =
     (fst acc + (\<Sum>i\<leftarrow>is. \<Sum>j\<leftarrow>js. of_nat (i * 16 + j) * hist ! (i * 16 + j)),
      snd acc + (\<Sum>i\<leftarrow>is. \<Sum>j\<leftarrow>js. hist ! (i * 16 + j)))"
  by (induction "is" arbitrary: acc) (simp_all add: fold_histogram_step algebra_simps)

lemma sum_list_16_16:
  fixes g :: "nat \<Rightarrow> 'a::comm_monoid_add"
  shows "(\<Sum>i\<leftarrow>[0..<16]. \<Sum>j\<leftarrow>[0..<16]. g (i * 16 + j)) = (\<Sum>n<256. g n)"
proof -
  have "(\<Sum>i\<leftarrow>[0..<16]. \<Sum>j\<leftarrow>[0..<16]. g (i * 16 + j)) = (\<Sum>i<16. \<Sum>j<16. g (i * 16 + j))"
    by (simp add: sum_list_sum_nth atLeast0LessThan interv_sum_list_conv_sum_set_nat)
  also have "\<dots> = (\<Sum>i<16. sum g {i * 16..<i * 16 + 16})"
  proof (rule sum.cong[OF refl])
    fix i :: nat
    show "(\<Sum>j<16. g (i * 16 + j)) = sum g {i * 16..<i * 16 + 16}"
      using sum.shift_bounds_nat_ivl[of g 0 "i*16" 16] by (simp add: atLeast0LessThan add.commute)
  qed
  also have "\<dots> = (\<Sum>n<16*16. g n)"
    by (rule sum.nat_group)
  finally show ?thesis by simp
qed

lemma histogram_sums_eq:
  "histogram_sums hist = ((\<Sum>n<256. of_nat n * hist ! n), (\<Sum>n<256. hist ! n))"
  unfolding histogram_sums_def fold_fold_histogram_step
  by (simp only: sum_list_16_16[of "\<lambda>n. of_nat n * hist ! n"] sum_list_16_16[of "\<lambda>n. hist ! n"]
        fst_conv snd_conv add_0)

subsection \<open>The histogram of a frame list\<close>

lemma length_processFrame [simp]: "length (processFrame hist f) = length hist"
  by (simp add: processFrame_def)

lemma length_foldl_processFrame [simp]: "length (foldl processFrame hist frames) = length hist"
  by (induction frames arbitrary: hist) simp_all

lemma length_frame_histogram [simp]: "length (frame_histogram frames) = 256"
  by (simp add: frame_histogram_def)

lemma foldl_processFrame_nth:
  "v < length hist \<Longrightarrow>
   foldl processFrame hist frames ! v
     = hist ! v + of_nat (length (filter (\<lambda>f. unat (luminance f) = v) frames))"
proof (induction frames arbitrary: hist)
  case Nil
  then show ?case by simp
next
  case (Cons f frames)
  have "foldl processFrame hist (f # frames) ! v = processFrame hist f ! v
      + of_nat (length (filter (\<lambda>f. unat (luminance f) = v) frames))"
    using Cons.IH[of "processFrame hist f"] Cons.prems by simp
  moreover have "processFrame hist f ! v = hist ! v + (if unat (luminance f) = v then 1 else 0)"
    using Cons.prems by (simp add: processFrame_def nth_list_update)
  ultimately show ?case by simp
qed

lemma frame_histogram_nth:
  "v < 256 \<Longrightarrow> frame_histogram frames ! v = of_nat (bucket frames v)"
  by (simp add: frame_histogram_def foldl_processFrame_nth bucket_def)

lemma bucket_Cons:
  "bucket (f # frames) v = (if unat (luminance f) = v then 1 else 0) + bucket frames v"
  by (simp add: bucket_def)

lemma sum_bucket:
  "\<forall>f\<in>set frames. unat (luminance f) < 256 \<Longrightarrow> (\<Sum>v<256. bucket frames v) = length frames"
proof (induction frames)
  case Nil
  then show ?case by (simp add: bucket_def)
next
  case (Cons f frames)
  then have "unat (luminance f) < 256" by simp
  then have "(\<Sum>v<256. (if unat (luminance f) = v then 1 else 0)) = (1::nat)"
    by simp
  then show ?case using Cons by (simp add: bucket_Cons sum.distrib)
qed

lemma sum_weighted_bucket:
  "\<forall>f\<in>set frames. unat (luminance f) < 256 \<Longrightarrow>
   (\<Sum>v<256. v * bucket frames v) = (\<Sum>f\<leftarrow>frames. unat (luminance f))"
proof (induction frames)
  case Nil
  then show ?case by (simp add: bucket_def)
next
  case (Cons f frames)
  then have "unat (luminance f) < 256" by simp
  then have "(\<Sum>v<256. v * (if unat (luminance f) = v then 1 else 0)) = unat (luminance f)"
    by (simp add: if_distrib[of "\<lambda>x. _ * x"] cong: if_cong)
  then show ?case using Cons by (simp add: bucket_Cons sum.distrib algebra_simps)
qed

lemma sum_list_luminance_le:
  "\<forall>f\<in>set frames. unat (luminance f) < 256 \<Longrightarrow>
   (\<Sum>f\<leftarrow>frames. unat (luminance f)) \<le> 255 * length frames"
  by (induction frames) auto

text \<open>
  In 32-bit arithmetic the two sums of \<^verbatim>\<open>calculateHistogram\<close> are the sum of the luminances
  and the number of frames, both modulo \<open>2 ^ 32\<close>.
\<close>

lemma histogram_sums_frames:
  assumes "\<forall>f\<in>set frames. unat (luminance f) < 256"
  shows "histogram_sums (frame_histogram frames)
           = (of_nat (\<Sum>f\<leftarrow>frames. unat (luminance f)), of_nat (length frames))"
proof -
  have "(\<Sum>n<256. of_nat n * frame_histogram frames ! n)
          = (of_nat (\<Sum>v<256. v * bucket frames v) :: 32 word)"
    by (simp add: frame_histogram_nth)
  moreover have "(\<Sum>n<256. frame_histogram frames ! n)
          = (of_nat (\<Sum>v<256. bucket frames v) :: 32 word)"
    by (simp add: frame_histogram_nth)
  ultimately show ?thesis
    using assms by (simp add: histogram_sums_eq sum_bucket sum_weighted_bucket)
qed

lemma unat_frame_histogram:
  assumes "length frames < 2 ^ 32" "v < 256"
  shows "unat (frame_histogram frames ! v) = bucket frames v"
proof -
  have "bucket frames v \<le> length frames" by (simp add: bucket_def)
  then have "bucket frames v < 2 ^ 32" using assms by simp
  then show ?thesis
    using assms by (simp add: frame_histogram_nth unat_of_nat take_bit_nat_eq_self unsigned_of_nat)
qed

subsection \<open>The mean of at most 16843009 frames\<close>

text \<open>
  C9, as amended. For every non-empty frame list of at most 16843009 frames whose luminances
  are below 256, \<^verbatim>\<open>calculateHistogram\<close> yields the sum of \<open>value * count\<close> over the 256
  buckets divided by the sum of the counts, the quotient being truncated; the sum of the
  counts is the number of frames, and the mean is at most 255. (With that many frames the sum
  of \<open>value * count\<close> stays below \<open>2 ^ 32\<close>.)
\<close>

theorem mean_luminance_bounded:
  assumes ne: "frames \<noteq> []"
    and lum: "\<forall>f\<in>set frames. luminance f < 256"
    and len: "length frames \<le> 16843009"
  shows "calculateHistogram (frame_histogram frames)
           = Inr (of_nat ((\<Sum>v<256. v * unat (frame_histogram frames ! v))
                            div (\<Sum>v<256. unat (frame_histogram frames ! v))))
         \<and> (\<Sum>v<256. unat (frame_histogram frames ! v)) = length frames
         \<and> (\<Sum>v<256. v * unat (frame_histogram frames ! v))
               div (\<Sum>v<256. unat (frame_histogram frames ! v)) \<le> 255"
proof -
  let ?S = "\<Sum>f\<leftarrow>frames. unat (luminance f)"
  let ?N = "length frames"
  have lum': "\<forall>f\<in>set frames. unat (luminance f) < 256"
    using lum by (auto simp: word_less_nat_alt)
  have N: "?N < 2 ^ 32" "0 < ?N" using len ne by simp_all
  have SN: "?S \<le> 255 * ?N" by (rule sum_list_luminance_le[OF lum'])
  have S: "?S < 2 ^ 32" using SN len by simp
  have b: "(\<Sum>v<256. unat (frame_histogram frames ! v)) = ?N"
    using sum_bucket[OF lum'] N by (simp add: unat_frame_histogram)
  have w: "(\<Sum>v<256. v * unat (frame_histogram frames ! v)) = ?S"
    using sum_weighted_bucket[OF lum'] N by (simp add: unat_frame_histogram)
  have nz: "(of_nat ?N :: 32 word) \<noteq> 0"
    using N by (intro of_nat_neq_0) simp_all
  have uS: "unat (of_nat ?S :: 32 word) = ?S" using S by (simp add: unat_of_nat)
  have uN: "unat (of_nat ?N :: 32 word) = ?N" using N by (simp add: unat_of_nat)
  have d: "(of_nat ?S :: 32 word) div of_nat ?N = of_nat (?S div ?N)"
    by (simp only: word_arith_nat_div uS uN)
  have "?S div ?N \<le> (255 * ?N) div ?N" using SN by (rule div_le_mono)
  then have q: "?S div ?N \<le> 255" using N by simp
  show ?thesis
    using nz d q by (simp add: calculateHistogram_def histogram_sums_frames[OF lum'] b w)
qed

text \<open>
  The five blinking frames have luminances 0, 255, 255, 0, 255: the mean is
  \<open>765 div 5 = 153\<close>.
\<close>

theorem mean_luminance_bounded_witness:
  "blinking_frames \<noteq> [] \<and> length blinking_frames \<le> 16843009
   \<and> calculateHistogram (frame_histogram blinking_frames) = Inr 153
   \<and> (\<Sum>v<256. v * unat (frame_histogram blinking_frames ! v))
         div (\<Sum>v<256. unat (frame_histogram blinking_frames ! v)) = 153"
proof -
  let ?q = "(\<Sum>v<256. v * unat (frame_histogram blinking_frames ! v))
              div (\<Sum>v<256. unat (frame_histogram blinking_frames ! v))"
  have ne: "blinking_frames \<noteq> []" and len: "length blinking_frames \<le> 16843009"
    by (simp_all add: blinking_frames_def)
  have lum: "\<forall>f\<in>set blinking_frames. luminance f < 256"
    by (simp add: blinking_frames_def)
  have v: "calculateHistogram (frame_histogram blinking_frames) = Inr 153"
    by code_simp
  from mean_luminance_bounded[OF ne lum len]
  have e: "calculateHistogram (frame_histogram blinking_frames) = Inr (of_nat ?q)"
    and q: "?q \<le> 255"
    by blast+
  from e v have "(of_nat ?q :: 32 word) = 153" by simp
  then have "unat (of_nat ?q :: 32 word) = 153" by simp
  moreover have "unat (of_nat ?q :: 32 word) = ?q"
    using q by (simp only: unat_of_nat) simp
  ultimately have "?q = 153" by simp
  with ne len v show ?thesis by blast
qed

subsection \<open>The mean of 16843010 bright frames\<close>

lemma length_bright_frames: "length (bright_frames n) = n"
  by (simp add: bright_frames_def)

lemma luminance_bright_frames: "\<forall>f\<in>set (bright_frames n). unat (luminance f) = 255"
  by (auto simp: bright_frames_def)

lemma sum_list_bright_frames: "(\<Sum>f\<leftarrow>bright_frames n. unat (luminance f)) = 255 * n"
  by (induction n) (simp_all add: bright_frames_def)

text \<open>
  C9 as stated fails. With 16843010 frames of luminance 255 the sum \<open>255 * 16843010\<close> is
  \<open>2 ^ 32 + 254\<close>: the 32-bit accumulator holds 254, and the mean comes out as
  \<open>254 div 16843010 = 0\<close>, where the sum of \<open>value * count\<close> divided by the count is 255.
\<close>

theorem mean_luminance_wraps:
  "calculateHistogram (frame_histogram (bright_frames 16843010)) = Inr 0
   \<and> (\<Sum>v<256. v * bucket (bright_frames 16843010) v) div length (bright_frames 16843010) = 255"
proof -
  have lum: "\<forall>f\<in>set (bright_frames 16843010). unat (luminance f) < 256"
    using luminance_bright_frames[of 16843010] by simp
  have "histogram_sums (frame_histogram (bright_frames 16843010))
          = (of_nat (255 * 16843010), of_nat 16843010)"
    by (simp only: histogram_sums_frames[OF lum] sum_list_bright_frames length_bright_frames)
  then have "calculateHistogram (frame_histogram (bright_frames 16843010)) = Inr 0"
    by (simp add: calculateHistogram_def)
  moreover have "(\<Sum>v<256. v * bucket (bright_frames 16843010) v) = 255 * 16843010"
    by (simp only: sum_weighted_bucket[OF lum] sum_list_bright_frames)
  ultimately show ?thesis by (simp only: length_bright_frames) simp
qed

section \<open>The signals of a frame list\<close>









text \<open>
  C2 fails on the code. The three frames of \<open>trailing_run_frames\<close> (indices 0 to 2, mean 170)
  are dark, bright, bright. The only signal is the break of 1 frame that ends at index 1; the
  bright run from index 1 to the last frame is never appended, and the durations add up to 1
  where the frames span 2.
\<close>

theorem trailing_run_dropped:
  "calculateHistogram (frame_histogram trailing_run_frames) = Inr 170
   \<and> processStateChanges 170 trailing_run_frames = [\<lparr>state = 0, duration = 1\<rparr>]
   \<and> (\<Sum>s\<leftarrow>processStateChanges 170 trailing_run_frames. unat (duration s)) = 1
   \<and> unat (time (last trailing_run_frames) - time (hd trailing_run_frames)) = 2"
proof -
  have "calculateHistogram (frame_histogram trailing_run_frames) = Inr 170"
    by code_simp
  moreover have "processStateChanges 170 trailing_run_frames = [\<lparr>state = 0, duration = 1\<rparr>]"
    by (simp add: trailing_run_frames_def processStateChanges_def)
  ultimately show ?thesis by (simp add: trailing_run_frames_def)
qed

section \<open>Termination of the symbol decoder\<close>

lemma string_find_Some:
  "string_find s from = Some p \<Longrightarrow> s = take p s @ from @ drop (p + length from) s"
proof (induction s arbitrary: p)
  case Nil
  then show ?case by (simp split: if_splits)
next
  case (Cons c cs)
  show ?case
  proof (cases "take (length from) (c # cs) = from")
    case True
    then have "p = 0" using Cons.prems by simp
    moreover have "c # cs = take (length from) (c # cs) @ drop (length from) (c # cs)"
      by (simp only: append_take_drop_id)
    ultimately show ?thesis using True by simp
  next
    case False
    then obtain q where q: "string_find cs from = Some q" "p = Suc q"
      using Cons.prems by auto
    show ?thesis using Cons.IH[OF q(1)] q(2) by simp
  qed
qed

lemma replace_Some:
  assumes "replace s from to = Some s'"
  shows "\<exists>a b. s = a @ from @ b \<and> s' = a @ to @ b"
proof -
  obtain p where p: "string_find s from = Some p"
    and s': "s' = take p s @ to @ drop (p + length from) s"
    using assms by (auto simp: replace_def split: option.splits)
  from string_find_Some[OF p] s' show ?thesis by blast
qed

text \<open>
  A replacement whose \<open>to\<close> has fewer characters of some kind than its \<open>from\<close> lowers the
  number of such characters in the string.
\<close>

lemma replace_decreases:
  assumes "replace s from to = Some s'" "count_chars P to < count_chars P from"
  shows "count_chars P s' < count_chars P s"
proof -
  obtain a b where "s = a @ from @ b" "s' = a @ to @ b"
    using replace_Some[OF assms(1)] by blast
  then show ?thesis using assms(2) by (simp add: count_chars_def)
qed

lemma replace_all_returns:
  assumes "count_chars P to < count_chars P from"
  shows "\<exists>r. replace_all out from to = Some r"
proof (induction "count_chars P out" arbitrary: out rule: less_induct)
  case less
  show ?case
  proof (cases "replace out from to")
    case None
    then show ?thesis by (subst replace_all.simps) simp
  next
    case (Some out')
    then have "count_chars P out' < count_chars P out"
      using assms by (rule replace_decreases)
    then obtain r where "replace_all out' from to = Some r"
      using less by blast
    then show ?thesis using Some by (subst replace_all.simps) simp
  qed
qed

lemma replace_symbols_returns:
  assumes "\<forall>m\<in>set ms. count_chars P ('' '' @ snd m @ '' '') < count_chars P ('' '' @ fst m @ '' '')"
  shows "\<exists>r. replace_symbols ms out = Some r"
  using assms
proof (induction ms arbitrary: out)
  case Nil
  then show ?case by simp
next
  case (Cons m ms)
  then have "count_chars P ('' '' @ snd m @ '' '') < count_chars P ('' '' @ fst m @ '' '')"
    by simp
  then obtain r where r: "replace_all out ('' '' @ fst m @ '' '') ('' '' @ snd m @ '' '') = Some r"
    using replace_all_returns by blast
  obtain r' where "replace_symbols ms r = Some r'"
    using Cons.IH[of r] Cons.prems by auto
  then show ?case using r by simp
qed

lemma morse_symbols_decrease:
  "\<forall>m\<in>set morse_symbols.
     count_chars dot_or_dash ('' '' @ snd m @ '' '') < count_chars dot_or_dash ('' '' @ fst m @ '' '')"
  by (simp add: morse_symbols_def count_chars_def dot_or_dash_def)

lemma decodeMorse_returns: "\<exists>r. decodeMorse inp = Some r"
proof -
  obtain a where a: "replace_symbols morse_symbols inp = Some a"
    using replace_symbols_returns[OF morse_symbols_decrease] by blast
  have sp: "count_chars (\<lambda>c. c = CHR '' '') [] < count_chars (\<lambda>c. c = CHR '' '') '' ''"
    by (simp add: count_chars_def)
  have bar: "count_chars (\<lambda>c. c = CHR ''|'') '' '' < count_chars (\<lambda>c. c = CHR ''|'') ''|''"
    by (simp add: count_chars_def)
  obtain b where b: "replace_all a '' '' [] = Some b"
    using replace_all_returns[OF sp] by blast
  obtain c where c: "replace_all b ''|'' '' '' = Some c"
    using replace_all_returns[OF bar] by blast
  show ?thesis using a b c by (simp add: decodeMorse_def)
qed

text \<open>
  C10. For every token stream \<^verbatim>\<open>decodeMorse\<close> returns: every \<^verbatim>\<open>replace_all\<close> of its loops
  ends. Each replacement of a table entry lowers the number of dots and dashes of the string,
  each removal of a space lowers the number of spaces, and each replacement of the word
  separator lowers the number of bars.
\<close>

theorem decodeMorse_terminates:
  "(\<exists>r. decodeMorse inp = Some r)
   \<and> (\<forall>m\<in>set morse_symbols. \<forall>s s'.
        replace s ('' '' @ fst m @ '' '') ('' '' @ snd m @ '' '') = Some s'
        \<longrightarrow> count_chars dot_or_dash s' < count_chars dot_or_dash s)
   \<and> (\<forall>s s'. replace s '' '' [] = Some s'
        \<longrightarrow> count_chars (\<lambda>c. c = CHR '' '') s' < count_chars (\<lambda>c. c = CHR '' '') s)
   \<and> (\<forall>s s'. replace s ''|'' '' '' = Some s'
        \<longrightarrow> count_chars (\<lambda>c. c = CHR ''|'') s' < count_chars (\<lambda>c. c = CHR ''|'') s)"
proof -
  have sp: "count_chars (\<lambda>c. c = CHR '' '') [] < count_chars (\<lambda>c. c = CHR '' '') '' ''"
    by (simp add: count_chars_def)
  have bar: "count_chars (\<lambda>c. c = CHR ''|'') '' '' < count_chars (\<lambda>c. c = CHR ''|'') ''|''"
    by (simp add: count_chars_def)
  have 1: "\<exists>r. decodeMorse inp = Some r"
    by (rule decodeMorse_returns)
  have 2: "\<forall>m\<in>set morse_symbols. \<forall>s s'.
        replace s ('' '' @ fst m @ '' '') ('' '' @ snd m @ '' '') = Some s'
        \<longrightarrow> count_chars dot_or_dash s' < count_chars dot_or_dash s"
    using morse_symbols_decrease replace_decreases by blast
  have 3: "\<forall>s s'. replace s '' '' [] = Some s'
        \<longrightarrow> count_chars (\<lambda>c. c = CHR '' '') s' < count_chars (\<lambda>c. c = CHR '' '') s"
    using replace_decreases[OF _ sp] by blast
  have 4: "\<forall>s s'. replace s ''|'' '' '' = Some s'
        \<longrightarrow> count_chars (\<lambda>c. c = CHR ''|'') s' < count_chars (\<lambda>c. c = CHR ''|'') s"
    using replace_decreases[OF _ bar] by blast
  from 1 2 3 4 show ?thesis by blast
qed

text \<open>
  The token stream of SOS between spaces is decoded to SOS; the replacement of its first
  \<open>...\<close> by \<open>S\<close> takes the dots and dashes from 9 to 6.
\<close>

theorem decodeMorse_terminates_witness:
  "decodeMorse '' ... --- ... '' = Some ''SOS''
   \<and> replace '' ... --- ... '' '' ... '' '' S '' = Some '' S --- ... ''
   \<and> count_chars dot_or_dash '' S --- ... '' < count_chars dot_or_dash '' ... --- ... ''"
proof -
  have a: "decodeMorse '' ... --- ... '' = Some ''SOS''"
    by code_simp
  have b: "replace '' ... --- ... '' ('' '' @ fst (''...'', ''S'') @ '' '')
             ('' '' @ snd (''...'', ''S'') @ '' '') = Some '' S --- ... ''"
    by code_simp
  have m: "(''...'', ''S'') \<in> set morse_symbols"
    by (simp add: morse_symbols_def)
  from decodeMorse_terminates[of "'' ... --- ... ''"] m b
  have c: "count_chars dot_or_dash '' S --- ... '' < count_chars dot_or_dash '' ... --- ... ''"
    by blast
  from a b c show ?thesis by simp
qed

section \<open>Loops that do not fault\<close>

lemma and_then_Inr [simp]: "and_then (Inr x) f = f x"
  by (simp add: and_then_def)

lemma and_then_Inl [simp]: "and_then (Inl e) f = Inl e"
  by (simp add: and_then_def)

lemma and_then_eq_Inr: "and_then r f = Inr y \<longleftrightarrow> (\<exists>x. r = Inr x \<and> f x = Inr y)"
  by (cases r) simp_all

text \<open>A loop whose body never faults is a fold.\<close>

lemma for_each_Inr:
  assumes "\<And>x acc. x \<in> set xs \<Longrightarrow> body x acc = Inr (g x acc)"
  shows "for_each xs body acc = Inr (fold g xs acc)"
  using assms by (induction xs arbitrary: acc) simp_all

text \<open>
  A loop whose body faults on the bad elements, whatever the state, faults when there is a
  bad element, and is a fold otherwise.
\<close>

lemma for_each_checked:
  assumes "\<And>x acc. x \<in> set xs \<Longrightarrow> body x acc = (if bad x then Inl e else Inr (g x acc))"
  shows "for_each xs body acc = (if \<exists>x\<in>set xs. bad x then Inl e else Inr (fold g xs acc))"
  using assms
proof (induction xs arbitrary: acc)
  case Nil
  then show ?case by simp
next
  case (Cons x xs)
  have "for_each xs body a = (if \<exists>x\<in>set xs. bad x then Inl e else Inr (fold g xs a))" for a
    by (rule Cons.IH) (simp add: Cons.prems)
  then show ?case using Cons.prems[of x acc] by simp
qed

lemma for_each_invariant:
  assumes "for_each xs body acc = Inr r" "P acc"
    and "\<And>x a b. x \<in> set xs \<Longrightarrow> P a \<Longrightarrow> body x a = Inr b \<Longrightarrow> P b"
  shows "P r"
  using assms
proof (induction xs arbitrary: acc)
  case Nil
  then show ?case by simp
next
  case (Cons x xs)
  from Cons.prems(1) obtain b where b: "body x acc = Inr b" "for_each xs body b = Inr r"
    by (auto simp: and_then_eq_Inr)
  have "P b" by (rule Cons.prems(3)[OF _ Cons.prems(2) b(1)]) simp
  show ?case
  proof (rule Cons.IH[OF b(2) \<open>P b\<close>])
    fix y a c
    assume "y \<in> set xs" "P a" "body y a = Inr c"
    then show "P c" using Cons.prems(3)[of y a c] by simp
  qed
qed

section \<open>The gaussian filter\<close>

text \<open>
  When the window and the indices stay within \<^verbatim>\<open>int\<close>, the inner loop computes
  \<open>filter_sum\<close>; when moreover every sum truncates to an \<^verbatim>\<open>int\<close>, the filter returns the
  truncated sums.
\<close>

lemma filter_value_sum:
  assumes "- 2147483648 < w" "w < 2147483647" "int i + w \<le> 2147483647"
  shows "filter_value fp s w i = double_to_int (filter_sum fp s w i)"
proof -
  have "for_each [- w..w] (filter_step fp s i) 0 = Inr (fold (filter_term fp s i) [- w..w] 0)"
    by (rule for_each_Inr) (use assms in \<open>auto simp: filter_step_def\<close>)
  then show ?thesis using assms by (simp add: filter_value_def filter_sum_def)
qed

lemma fold_update:
  "k \<le> length zs \<Longrightarrow> fold (\<lambda>i ov. ov[i := f i]) [0..<k] zs = map f [0..<k] @ drop k zs"
proof (induction k)
  case 0
  then show ?case by simp
next
  case (Suc k)
  then have k: "k < length zs" by simp
  have "(map f [0..<k] @ drop k zs)[k := f k] = map f [0..<k] @ (drop k zs)[0 := f k]"
    by (simp add: list_update_append)
  also have "\<dots> = map f [0..<k] @ f k # drop (Suc k) zs"
    using k by (simp add: Cons_nth_drop_Suc[symmetric])
  finally show ?case using Suc by simp
qed

lemma gaussian_filter_Inr:
  assumes "- 2147483648 < w" "w < 2147483647" "int (length s) + w \<le> 2147483648"
    and "\<forall>i<length s. - 2147483649 < filter_sum fp s w i \<and> filter_sum fp s w i < 2147483648"
  shows "gaussian_filter fp s w = Inr (map (\<lambda>i. trunc (filter_sum fp s w i)) [0..<length s])"
proof -
  have "for_each [0..<length s]
          (\<lambda>i ov. and_then (filter_value fp s w i) (\<lambda>t. Inr (ov[i := t])))
          (replicate (length s) 0)
        = Inr (fold (\<lambda>i ov. ov[i := trunc (filter_sum fp s w i)]) [0..<length s]
                 (replicate (length s) 0))"
  proof (rule for_each_Inr)
    fix i and acc :: "int list"
    assume "i \<in> set [0..<length s]"
    then have i: "i < length s" by simp
    then have "filter_value fp s w i = double_to_int (filter_sum fp s w i)"
      using assms(1,2,3) by (intro filter_value_sum) simp_all
    then show "and_then (filter_value fp s w i) (\<lambda>t. Inr (acc[i := t]))
                 = Inr (acc[i := trunc (filter_sum fp s w i)])"
      using assms(4) i by (simp add: double_to_int_def)
  qed
  then show ?thesis
    by (simp add: gaussian_filter_def fold_update)
qed

lemma gaussian_filter_length:
  assumes "gaussian_filter fp s w = Inr ov"
  shows "length ov = length s"
proof -
  have "for_each [0..<length s]
          (\<lambda>i ov. and_then (filter_value fp s w i) (\<lambda>t. Inr (ov[i := t])))
          (replicate (length s) 0) = Inr ov"
    using assms by (simp add: gaussian_filter_def)
  then show ?thesis
    by (rule for_each_invariant[where P = "\<lambda>ov. length ov = length s"])
       (auto simp: and_then_eq_Inr)
qed

lemma length_histogram_vector [simp]: "length (histogram_vector vf n) = n"
proof -
  have "length (fold (\<lambda>e s. s[nat (fst e) := snd e]) vf s) = length s" for s :: "int list"
    by (induction vf arbitrary: s) simp_all
  then show ?thesis by (simp add: histogram_vector_def)
qed

section \<open>Bounds on the gaussian weights\<close>

text \<open>
  Over the reals the weight of distance \<open>x\<close> is \<open>exp (- x\<^sup>2) / sqrt pi\<close>: above 11/20 and
  below 3/4 at distance 0, below 1/3 at distance 1, at most 1/40 at distance 2 and at most
  1/2048 at distance 3.
\<close>

lemma gaussian_unit: "gaussian real_arithmetic x 1 = sqrt (1 / pi) * exp (- (x * x))"
  by (simp add: gaussian_def real_arithmetic_def powr_def)

lemma gaussian_even [simp]: "gaussian real_arithmetic (- x) 1 = gaussian real_arithmetic x 1"
  by (simp add: gaussian_unit)

lemma exp_minus_one_le: "exp (- 1 :: real) \<le> 256 / 625"
proof -
  have "(5 / 4 :: real) \<le> exp (1 / 4)" using exp_ge_add_one_self[of "1 / 4 :: real"] by simp
  then have "1 / exp (1 / 4 :: real) \<le> 4 / 5" by (simp add: field_simps)
  then have quarter: "exp (- (1 / 4) :: real) \<le> 4 / 5"
    by (simp add: exp_minus inverse_eq_divide)
  have "exp (- 1 :: real) = exp (real 4 * (- (1 / 4)))" by simp
  also have "\<dots> = exp (- (1 / 4)) ^ 4" by (rule exp_of_nat_mult)
  also have "\<dots> \<le> (4 / 5) ^ 4" by (rule power_mono[OF quarter]) simp
  finally show ?thesis by (simp add: power_divide)
qed

lemma exp_minus_nat_le: "exp (- real n) \<le> (256 / 625) ^ n"
proof -
  have "exp (- real n) = exp (real n * (- 1))" by simp
  also have "\<dots> = exp (- 1) ^ n" by (rule exp_of_nat_mult)
  also have "\<dots> \<le> (256 / 625) ^ n"
    by (rule power_mono[OF exp_minus_one_le]) simp
  finally show ?thesis .
qed

lemma arctan_le_self: "0 \<le> x \<Longrightarrow> arctan x \<le> x"
proof -
  assume x: "0 \<le> x"
  have "arctan x - x \<le> arctan 0 - 0"
  proof (rule DERIV_nonpos_imp_nonincreasing[of 0 x "\<lambda>x. arctan x - x"])
    show "0 \<le> x" by (rule x)
    fix y :: real
    have "DERIV (\<lambda>x. arctan x - x) y :> inverse (1 + y\<^sup>2) - 1"
      by (auto intro!: derivative_eq_intros)
    moreover have "inverse (1 + y\<^sup>2) - 1 \<le> 0"
      by (simp add: inverse_le_1_iff)
    ultimately show "\<exists>d. DERIV (\<lambda>x. arctan x - x) y :> d \<and> d \<le> 0" by blast
  qed
  then show ?thesis by simp
qed

lemma pi_less_16_5: "pi < 16 / 5"
proof -
  have "arctan (1 / 5) \<le> (1 / 5 :: real)" by (rule arctan_le_self) simp
  moreover have "0 < arctan (1 / 239 :: real)" by simp
  ultimately have "4 * arctan (1 / 5) - arctan (1 / 239 :: real) < 4 / 5" by linarith
  then show ?thesis using machin by linarith
qed

lemma sqrt_inverse_pi_bounds: "11 / 20 < sqrt (1 / pi)" "sqrt (1 / pi) < 3 / 4"
proof -
  have "(11 / 20)\<^sup>2 < 1 / pi"
    using pi_less_16_5 pi_gt_zero by (simp add: power2_eq_square field_simps)
  then show "11 / 20 < sqrt (1 / pi)" by (rule real_less_rsqrt)
  have "1 / pi < (3 / 4)\<^sup>2"
    using pi_ge_two by (simp add: power2_eq_square field_simps)
  then show "sqrt (1 / pi) < 3 / 4" by (intro real_less_lsqrt) simp_all
qed

lemma gaussian_0_bounds:
  "11 / 20 < gaussian real_arithmetic 0 1" "gaussian real_arithmetic 0 1 < 3 / 4"
  using sqrt_inverse_pi_bounds by (simp_all add: gaussian_unit)

lemma gaussian_pos: "0 < gaussian real_arithmetic x 1"
  using pi_gt_zero by (simp add: gaussian_unit)

lemma gaussian_nat_le: "gaussian real_arithmetic (real n) 1 \<le> 3 / 4 * (256 / 625) ^ (n * n)"
proof -
  have "exp (- (real n * real n)) \<le> (256 / 625) ^ (n * n)"
    using exp_minus_nat_le[of "n * n"] by simp
  moreover have "0 \<le> sqrt (1 / pi)" by simp
  ultimately have "sqrt (1 / pi) * exp (- (real n * real n)) \<le> 3 / 4 * (256 / 625) ^ (n * n)"
    using sqrt_inverse_pi_bounds(2) by (intro mult_mono) simp_all
  then show ?thesis by (simp add: gaussian_unit)
qed

lemma gaussian_1_less: "gaussian real_arithmetic 1 1 < 1 / 3"
  using gaussian_nat_le[of 1] by simp

lemma gaussian_2_le: "gaussian real_arithmetic 2 1 \<le> 1 / 40"
  using gaussian_nat_le[of 2] by (simp add: power_divide)

lemma gaussian_3_le: "gaussian real_arithmetic 3 1 \<le> 1 / 2048"
  using gaussian_nat_le[of 3] by (simp add: power_divide)

lemmas gaussian_bounds =
  gaussian_0_bounds gaussian_1_less gaussian_2_le gaussian_3_le
  gaussian_pos[of 1] gaussian_pos[of 2] gaussian_pos[of 3]

section \<open>Accurate arithmetic\<close>

lemma accurate_real_arithmetic: "accurate real_arithmetic"
  by (simp add: accurate_def)

text \<open>
  The truncation of a double that is within a thousandth of a real number \<open>e\<close>, from bounds
  on \<open>e\<close>.
\<close>

lemma near_trunc_unique:
  assumes "\<bar>t - e\<bar> \<le> 1 / 1000" "of_int n + 1 / 100 \<le> e" "e \<le> of_int n + 99 / 100" "0 \<le> n"
  shows "trunc t = n"
proof -
  have "of_int n \<le> t" "t < of_int n + 1" using assms by linarith+
  then have "\<lfloor>t\<rfloor> = n" by (simp add: floor_unique)
  moreover have "0 \<le> t" using \<open>of_int n \<le> t\<close> assms(4) by (simp add: order_trans[of 0 "of_int n" t])
  ultimately show ?thesis by (simp add: trunc_def)
qed

lemma near_trunc_zero:
  assumes "\<bar>t - e\<bar> \<le> 1 / 1000" "0 \<le> e" "e \<le> 99 / 100"
  shows "trunc t = 0"
proof (cases "0 \<le> t")
  case True
  moreover have "t < 1" using assms by linarith
  ultimately have "\<lfloor>t\<rfloor> = 0" by (simp add: floor_unique)
  then show ?thesis using True by (simp add: trunc_def)
next
  case False
  moreover have "- 1 < t" using assms by linarith
  ultimately have "\<lceil>t\<rceil> = 0" by (simp add: ceiling_unique)
  then show ?thesis using False by (simp add: trunc_def)
qed

lemma near_trunc_bounds:
  assumes "\<bar>t - e\<bar> \<le> 1 / 1000" "of_int l + 1 / 100 \<le> e" "e \<le> of_int u + 99 / 100" "0 \<le> l"
  shows "l \<le> trunc t \<and> trunc t \<le> u"
proof -
  have "of_int l \<le> t" "t < of_int u + 1" using assms by linarith+
  moreover have "0 \<le> t" using \<open>of_int l \<le> t\<close> assms(4) by (simp add: order_trans[of 0 "of_int l" t])
  ultimately show ?thesis by (simp add: trunc_def le_floor_iff floor_le_iff)
qed

lemma near_trunc_nonneg_le:
  assumes "\<bar>t - e\<bar> \<le> 1 / 1000" "0 \<le> e" "e \<le> of_int u + 99 / 100" "0 \<le> u"
  shows "0 \<le> trunc t \<and> trunc t \<le> u"
proof (cases "0 \<le> t")
  case True
  moreover have "t < of_int u + 1" using assms by linarith
  ultimately show ?thesis by (simp add: trunc_def floor_le_iff)
next
  case False
  moreover have "- 1 < t" using assms by linarith
  ultimately have "\<lceil>t\<rceil> = 0" by (simp add: ceiling_unique)
  then show ?thesis using False assms(4) by (simp add: trunc_def)
qed

section \<open>The peak detector\<close>

subsection \<open>The scan finds the candidates\<close>

lemma sign_simps:
  "(sign x = 1 \<or> sign x = 0) = (0 \<le> x)" "(sign x = - 1) = (x < 0)" "(0 < sign x) = (0 < x)"
  by (auto simp: sign_def)

lemma fold_turning_term:
  "fold (turning_term ov) [1..<k] (0, 0, [])
     = (sign (first_difference ov (k - 1)), sign (first_difference ov (k - 1)),
        map (\<lambda>i. (int i - 1, ov ! (i - 1))) (filter (falls_at ov) [1..<k]))"
proof (induction k)
  case 0
  then show ?case by (simp add: first_difference_def sign_def)
next
  case (Suc k)
  show ?case
  proof (cases "k = 0")
    case True
    then show ?thesis by (simp add: first_difference_def sign_def)
  next
    case False
    then have "[1..<Suc k] = [1..<k] @ [k]" by simp
    then show ?thesis
      using False Suc
      by (simp add: turning_term_def Let_def sign_simps falls_at_def first_difference_def)
  qed
qed

text \<open>
  The scan faults when a difference of adjacent entries is no \<^verbatim>\<open>int\<close>; otherwise it returns
  the candidates.
\<close>

lemma turning_points_checked:
  "turning_points ov =
     (if \<exists>i\<in>set [1..<length ov].
           ov ! i - ov ! (i - 1) < - 2147483648 \<or> 2147483647 < ov ! i - ov ! (i - 1)
      then Inl SignedOverflow else Inr (candidates ov))"
proof -
  have loop: "for_each [1..<length ov] (turning_step ov) (0, 0, []) =
     (if \<exists>i\<in>set [1..<length ov].
           ov ! i - ov ! (i - 1) < - 2147483648 \<or> 2147483647 < ov ! i - ov ! (i - 1)
      then Inl SignedOverflow
      else Inr (fold (turning_term ov) [1..<length ov] (0, 0, [])))"
    by (rule for_each_checked) (simp add: turning_step_def)
  have "0 < first_difference ov (length ov - 1) \<Longrightarrow> 2 \<le> length ov"
    by (cases "length ov - 1 = 0") (auto simp: first_difference_def)
  then show ?thesis
    unfolding turning_points_def loop candidates_def fold_turning_term
    by (auto simp: sign_simps max_def Let_def)
qed

lemma turning_points_Inr: "turning_points ov = Inr tp \<Longrightarrow> tp = candidates ov"
  by (simp add: turning_points_checked split: if_splits)


lemma first_points_take: "first_points (int K) tp = map fst (take K tp)"
proof (induction tp arbitrary: K)
  case Nil
  then show ?case by simp
next
  case (Cons p tp)
  show ?case
  proof (cases K)
    case 0
    then show ?thesis by simp
  next
    case (Suc n)
    then have "int K - 1 = int n" by simp
    then show ?thesis using Suc Cons.IH[of n] by simp
  qed
qed

subsection \<open>Sorts\<close>

lemma descending_stable_sort_points: "descending_permutation stable_sort_points"
proof -
  have "sorted_wrt (\<lambda>a b. snd b \<le> snd a) (sort_key (\<lambda>p. - snd p) tp)" for tp :: "(int \<times> int) list"
    using sorted_sort_key[of "\<lambda>p. - snd p" tp] by (simp add: sorted_wrt_map)
  then show ?thesis by (simp add: descending_permutation_def stable_sort_points_def)
qed

lemma sorted_points:
  "descending_permutation srt \<Longrightarrow> mset (srt tp) = mset tp"
  "descending_permutation srt \<Longrightarrow> sorted_wrt (\<lambda>a b. snd b \<le> snd a) (srt tp)"
  "descending_permutation srt \<Longrightarrow> set (srt tp) = set tp"
  "descending_permutation srt \<Longrightarrow> length (srt tp) = length tp"
  by (auto simp: descending_permutation_def dest: mset_eq_setD mset_eq_length)

lemma sorted_points_Nil: "descending_permutation srt \<Longrightarrow> srt [] = []"
  using sorted_points(4)[of srt "[]"] by simp

lemma sorted_points_single: "descending_permutation srt \<Longrightarrow> srt [p] = [p]"
proof -
  assume d: "descending_permutation srt"
  then have "length (srt [p]) = 1" "set (srt [p]) = {p}"
    using sorted_points(3,4)[of srt "[p]"] by simp_all
  then show ?thesis by (cases "srt [p]") auto
qed

lemma sorted_points_pair:
  assumes "descending_permutation srt" "snd q < snd p"
  shows "srt [p, q] = [p, q]"
proof -
  have l: "length (srt [p, q]) = 2" and m: "set (srt [p, q]) = {p, q}"
    and s: "sorted_wrt (\<lambda>a b. snd b \<le> snd a) (srt [p, q])"
    using sorted_points(2,3,4)[OF assms(1), of "[p, q]"] by simp_all
  from l obtain a b where ab: "srt [p, q] = [a, b]"
    by (cases "srt [p, q]"; cases "tl (srt [p, q])") auto
  with m have "{a, b} = {p, q}" by simp
  then have "a = p \<and> b = q \<or> a = q \<and> b = p"
    by (auto simp: doubleton_eq_iff)
  moreover have "snd b \<le> snd a" using s ab by simp
  ultimately show ?thesis using assms(2) ab by auto
qed

subsection \<open>A histogram with keys from 0 to below \<open>INT_MAX\<close> has its maximums\<close>





section \<open>Smoothed histograms under accurate arithmetic\<close>

lemma real_arithmetic_simps:
  "dbl_plus real_arithmetic a b = a + b" "dbl_times real_arithmetic a b = a * b"
  by (simp_all add: real_arithmetic_def)

text \<open>
  Over the reals, a term of the filter adds between nothing and the greatest count times the
  weight; with the window 3 the sum of a vector of counts from 0 to \<open>C\<close> lies between 0 and
  \<open>2 C\<close>.
\<close>

lemma filter_term_bounds:
  assumes "\<forall>x\<in>set s. 0 \<le> x \<and> x \<le> C" "0 \<le> C"
  shows "t \<le> filter_term real_arithmetic s i j t
       \<and> filter_term real_arithmetic s i j t
           \<le> t + real_of_int C * gaussian real_arithmetic (real_of_int j) 1"
proof (cases "0 \<le> int i + j \<and> int i + j < int (length s)")
  case True
  then have "s ! nat (int i + j) \<in> set s" by (intro nth_mem) linarith
  then have x: "0 \<le> s ! nat (int i + j)" "s ! nat (int i + j) \<le> C" using assms(1) by blast+
  have g: "0 \<le> gaussian real_arithmetic (real_of_int j) 1" using gaussian_pos by (simp add: less_imp_le)
  have "0 \<le> real_of_int (s ! nat (int i + j)) * gaussian real_arithmetic (real_of_int j) 1"
    using x(1) g by simp
  moreover have "real_of_int (s ! nat (int i + j)) * gaussian real_arithmetic (real_of_int j) 1
                   \<le> real_of_int C * gaussian real_arithmetic (real_of_int j) 1"
    using x(2) g by (intro mult_right_mono) simp_all
  ultimately show ?thesis
    using True by (simp add: filter_term_def Let_def real_arithmetic_simps)
next
  case False
  moreover have "0 \<le> real_of_int C * gaussian real_arithmetic (real_of_int j) 1"
    using assms(2) gaussian_pos[of "real_of_int j"] by (simp add: less_imp_le)
  ultimately show ?thesis by (auto simp: filter_term_def Let_def)
qed

lemma fold_filter_term_bounds:
  assumes "\<forall>x\<in>set s. 0 \<le> x \<and> x \<le> C" "0 \<le> C"
  shows "t \<le> fold (filter_term real_arithmetic s i) js t
       \<and> fold (filter_term real_arithmetic s i) js t
           \<le> t + real_of_int C * (\<Sum>j\<leftarrow>js. gaussian real_arithmetic (real_of_int j) 1)"
proof (induction js arbitrary: t)
  case Nil
  then show ?case by simp
next
  case (Cons j js)
  note a = filter_term_bounds[OF assms, of t i j]
  note b = Cons.IH[of "filter_term real_arithmetic s i j t"]
  show ?case using a b by (simp add: algebra_simps)
qed

lemma exact_sum_bounds:
  assumes "\<forall>x\<in>set s. 0 \<le> x \<and> x \<le> C" "0 \<le> C"
  shows "0 \<le> filter_sum real_arithmetic s 3 i"
    and "filter_sum real_arithmetic s 3 i \<le> 2 * real_of_int C"
proof -
  let ?g = "\<lambda>j. gaussian real_arithmetic (real_of_int j) 1"
  have "(\<Sum>j\<leftarrow>[- 3..3]. ?g j) \<le> 2"
    using gaussian_bounds by (simp add: upto.simps)
  then have "real_of_int C * (\<Sum>j\<leftarrow>[- 3..3]. ?g j) \<le> real_of_int C * 2"
    using assms(2) by (intro mult_left_mono) simp_all
  then show "0 \<le> filter_sum real_arithmetic s 3 i"
    and "filter_sum real_arithmetic s 3 i \<le> 2 * real_of_int C"
    using fold_filter_term_bounds[OF assms, of 0 i "[- 3..3]"]
    by (simp_all add: filter_sum_def)
qed

text \<open>
  With accurate arithmetic, the filter of window 3 returns the truncated sums on every vector
  of counts from 0 to 1000000000, and the sums are above -1 and below 2147483648.
\<close>

lemma accurate_sum_range:
  assumes "accurate fp" "\<forall>x\<in>set s. 0 \<le> x \<and> x \<le> 1000000000"
  shows "- 1 < filter_sum fp s 3 i \<and> filter_sum fp s 3 i < 2147483648"
proof -
  have "\<forall>x\<in>set s. \<bar>x\<bar> \<le> 2147483648" using assms(2) by fastforce
  then have n: "\<bar>filter_sum fp s 3 i - filter_sum real_arithmetic s 3 i\<bar> \<le> 1 / 1000"
    using assms(1) by (simp add: accurate_def)
  have b: "0 \<le> filter_sum real_arithmetic s 3 i" "filter_sum real_arithmetic s 3 i \<le> 2000000000"
    using exact_sum_bounds[OF assms(2), of i] by simp_all
  from n b show ?thesis by linarith
qed

lemma accurate_filter:
  assumes "accurate fp" "\<forall>x\<in>set s. 0 \<le> x \<and> x \<le> 1000000000" "length s \<le> 2147483644"
  shows "gaussian_filter fp s 3 = Inr (map (\<lambda>i. trunc (filter_sum fp s 3 i)) [0..<length s])"
proof (rule gaussian_filter_Inr)
  show "\<forall>i<length s. - 2147483649 < filter_sum fp s 3 i \<and> filter_sum fp s 3 i < 2147483648"
    using accurate_sum_range[OF assms(1,2)] by (smt (verit))
qed (use assms(3) in simp_all)

lemma accurate_near:
  assumes "accurate fp" "\<forall>x\<in>set s. 0 \<le> x \<and> x \<le> 1000000000"
  shows "\<bar>filter_sum fp s 3 i - filter_sum real_arithmetic s 3 i\<bar> \<le> 1 / 1000"
proof -
  have "\<forall>x\<in>set s. \<bar>x\<bar> \<le> 2147483648" using assms(2) by fastforce
  then show ?thesis using assms(1) by (simp add: accurate_def)
qed

subsection \<open>The histograms of the morse signals\<close>

lemma vector_off: "histogram_vector [(1, 2), (4, 1), (7, 2), (13, 2)] 14
    = [0, 2, 0, 0, 1, 0, 0, 2, 0, 0, 0, 0, 0, 2]"
  by code_simp

lemma vector_on: "histogram_vector [(2, 2), (5, 2), (8, 1), (11, 1)] 12
    = [0, 0, 2, 0, 0, 2, 0, 0, 1, 0, 0, 1]"
  by code_simp

lemma sums_off:
  assumes "accurate fp"
  shows "map (\<lambda>i. trunc (filter_sum fp [0, 2, 0, 0, 1, 0, 0, 2, 0, 0, 0, 0, 0, 2] 3 i)) [0..<14]
           = [0, 1, 0, 0, 0, 0, 0, 1, 0, 0, 0, 0, 0, 1]"
proof -
  have near: "\<bar>filter_sum fp [0, 2, 0, 0, 1, 0, 0, 2, 0, 0, 0, 0, 0, 2] 3 i
      - filter_sum real_arithmetic [0, 2, 0, 0, 1, 0, 0, 2, 0, 0, 0, 0, 0, 2] 3 i\<bar> \<le> 1 / 1000" for i
    by (rule accurate_near[OF assms]) simp
  show ?thesis
    apply (simp add: upt_rec)
    apply (intro conjI near_trunc_zero[OF near] near_trunc_unique[OF near, where n = 1])
    using gaussian_bounds
    apply (simp_all add: filter_sum_def filter_term_def Let_def upto.simps real_arithmetic_simps)
    done
qed

lemma sums_on:
  assumes "accurate fp"
  shows "map (\<lambda>i. trunc (filter_sum fp [0, 0, 2, 0, 0, 2, 0, 0, 1, 0, 0, 1] 3 i)) [0..<12]
           = [0, 0, 1, 0, 0, 1, 0, 0, 0, 0, 0, 0]"
proof -
  have near: "\<bar>filter_sum fp [0, 0, 2, 0, 0, 2, 0, 0, 1, 0, 0, 1] 3 i
      - filter_sum real_arithmetic [0, 0, 2, 0, 0, 2, 0, 0, 1, 0, 0, 1] 3 i\<bar> \<le> 1 / 1000" for i
    by (rule accurate_near[OF assms]) simp
  show ?thesis
    apply (simp add: upt_rec)
    apply (intro conjI near_trunc_zero[OF near] near_trunc_unique[OF near, where n = 1])
    using gaussian_bounds
    apply (simp_all add: filter_sum_def filter_term_def Let_def upto.simps real_arithmetic_simps)
    done
qed

lemma smoothed_off:
  assumes "accurate fp"
  shows "gaussian_filter fp [0, 2, 0, 0, 1, 0, 0, 2, 0, 0, 0, 0, 0, 2] 3
           = Inr [0, 1, 0, 0, 0, 0, 0, 1, 0, 0, 0, 0, 0, 1]"
proof -
  have l: "length [0, 2, 0, 0, 1, 0, 0, 2, 0, 0, 0, 0, 0, 2 :: int] = 14" by simp
  have "gaussian_filter fp [0, 2, 0, 0, 1, 0, 0, 2, 0, 0, 0, 0, 0, 2] 3
      = Inr (map (\<lambda>i. trunc (filter_sum fp [0, 2, 0, 0, 1, 0, 0, 2, 0, 0, 0, 0, 0, 2] 3 i))
               [0..<length [0, 2, 0, 0, 1, 0, 0, 2, 0, 0, 0, 0, 0, 2 :: int]])"
    by (rule accurate_filter[OF assms]) simp_all
  then show ?thesis unfolding l sums_off[OF assms] .
qed

lemma smoothed_on:
  assumes "accurate fp"
  shows "gaussian_filter fp [0, 0, 2, 0, 0, 2, 0, 0, 1, 0, 0, 1] 3
           = Inr [0, 0, 1, 0, 0, 1, 0, 0, 0, 0, 0, 0]"
proof -
  have l: "length [0, 0, 2, 0, 0, 2, 0, 0, 1, 0, 0, 1 :: int] = 12" by simp
  have "gaussian_filter fp [0, 0, 2, 0, 0, 2, 0, 0, 1, 0, 0, 1] 3
      = Inr (map (\<lambda>i. trunc (filter_sum fp [0, 0, 2, 0, 0, 2, 0, 0, 1, 0, 0, 1] 3 i))
               [0..<length [0, 0, 2, 0, 0, 2, 0, 0, 1, 0, 0, 1 :: int]])"
    by (rule accurate_filter[OF assms]) simp_all
  then show ?thesis unfolding l sums_on[OF assms] .
qed



section \<open>Thresholds and tokens\<close>

subsection \<open>What the peak detector returns\<close>

lemma sdiv_2_nonneg: "(0::int) \<le> x \<Longrightarrow> x sdiv 2 = x div 2"
  by (cases "x = 0") (simp_all add: signed_divide_int_def sgn_if)

lemma candidates_index:
  assumes "p \<in> set (candidates ov)"
  shows "0 \<le> fst p \<and> fst p < int (length ov)"
proof -
  have "0 < first_difference ov (length ov - 1) \<Longrightarrow> 2 \<le> length ov"
    by (cases "length ov - 1 = 0") (auto simp: first_difference_def)
  then show ?thesis
    using assms by (auto simp: candidates_def split: if_splits)
qed

lemma distinct_candidates: "distinct (map fst (candidates ov))"
proof -
  have "inj_on (\<lambda>i. int i - 1) (set (filter (falls_at ov) [1..<length ov]))"
    by (auto simp: inj_on_def)
  then have "distinct (map (\<lambda>i. int i - 1) (filter (falls_at ov) [1..<length ov]))"
    by (simp add: distinct_map)
  then show ?thesis
    by (auto simp: candidates_def comp_def)
qed

text \<open>
  A successful call of the peak detector returns at most \<open>K\<close> indices of the dense vector,
  without repetition.
\<close>

lemma get_local_maximums_Inr:
  assumes "descending_permutation srt"
    and "get_local_maximums fp srt vf (int K) w = Inr ps"
  shows "length ps \<le> K \<and> distinct ps \<and> fst (last vf) < 2147483647
         \<and> (\<forall>p\<in>set ps. 0 \<le> p \<and> p \<le> fst (last vf))"
proof -
  let ?n = "nat (fst (last vf) + 1)"
  from assms(2) have top: "fst (last vf) < 2147483647" and size: "0 \<le> fst (last vf) + 1"
    by (auto simp: get_local_maximums_def split: if_splits)
  from assms(2) obtain ov tp where
    ov: "gaussian_filter fp (histogram_vector vf ?n) w = Inr ov"
    and tp: "turning_points ov = Inr tp"
    and ps: "ps = first_points (int K) (srt tp)"
    by (auto simp: get_local_maximums_def and_then_eq_Inr split: if_splits)
  have c: "tp = candidates ov" by (rule turning_points_Inr[OF tp])
  have len: "int (length ov) = fst (last vf) + 1"
    using gaussian_filter_length[OF ov] size by simp
  have ps': "ps = map fst (take K (srt tp))" by (simp add: ps first_points_take)
  have "mset (map fst (srt tp)) = mset (map fst tp)"
    using sorted_points(1)[OF assms(1), of tp] by (metis mset_map)
  then have "distinct (map fst (srt tp))"
    using distinct_candidates[of ov] c mset_eq_imp_distinct_iff by blast
  then have d: "distinct ps"
    unfolding ps' by (simp add: take_map[symmetric] del: take_map)
  have "\<forall>p\<in>set ps. 0 \<le> p \<and> p < int (length ov)"
  proof
    fix p assume "p \<in> set ps"
    then obtain q where "q \<in> set (take K (srt tp))" "p = fst q" unfolding ps' by auto
    then have "q \<in> set (candidates ov)"
      using in_set_takeD sorted_points(3)[OF assms(1), of tp] c by fastforce
    then show "0 \<le> p \<and> p < int (length ov)"
      using candidates_index \<open>p = fst q\<close> by blast
  qed
  then have "\<forall>p\<in>set ps. 0 \<le> p \<and> p \<le> fst (last vf)"
    using len by fastforce
  then show ?thesis using d top unfolding ps' by simp
qed

lemma sorted_nth_le:
  fixes ps :: "int list"
  shows "sorted ps \<Longrightarrow> i \<le> j \<Longrightarrow> j < length ps \<Longrightarrow> ps ! i \<le> ps ! j"
  by (simp add: sorted_iff_nth_mono)

lemma sort_nth_mem:
  fixes ps :: "int list"
  shows "i < length ps \<Longrightarrow> sort ps ! i \<in> set ps"
  using nth_mem[of i "sort ps"] by simp

text \<open>The peaks found, in ascending order: strictly ascending and from 0 to below \<open>INT_MAX\<close>.\<close>

lemma found_peaks:
  assumes "descending_permutation srt"
    and "get_local_maximums fp srt vf (int K) w = Inr found"
  shows "sorted_wrt (<) (sort found)"
    and "i < length found \<Longrightarrow> 0 \<le> sort found ! i \<and> sort found ! i < 2147483647"
proof -
  note f = get_local_maximums_Inr[OF assms]
  show "sorted_wrt (<) (sort found)" using f by (simp add: strict_sorted_iff)
  show "0 \<le> sort found ! i \<and> sort found ! i < 2147483647" if "i < length found"
    using sort_nth_mem[OF that] f by fastforce
qed

subsection \<open>The report is produced\<close>

lemma peak_midpoint_defined:
  assumes "i < length ps" "j < length ps" "0 \<le> ps ! i" "0 \<le> ps ! j"
    and "ps ! i + ps ! j \<le> 2147483647"
  shows "peak_midpoint ps i j = Inr ((ps ! i + ps ! j) sdiv 2)"
  using assms by (simp add: peak_midpoint_def vector_at_def midpoint_def)

text \<open>
  With 3 peaks of the breaks, 2 peaks of the pulses and sums of adjacent peaks that are
  \<^verbatim>\<open>int\<close>s, the signal stage returns the report of the specification.
\<close>

lemma report_is_produced:
  assumes "descending_permutation srt"
    and off: "get_local_maximums fp srt (fst (duration_histograms signals)) 3 3 = Inr off_found"
    and on: "get_local_maximums fp srt (snd (duration_histograms signals)) 2 3 = Inr on_found"
    and l3: "length off_found = 3" and l2: "length on_found = 2"
    and s3: "sort off_found ! 1 + sort off_found ! 2 \<le> 2147483647"
    and s2: "sort on_found ! 0 + sort on_found ! 1 \<le> 2147483647"
  shows "processSignals fp srt signals = Inr (report_of signals off_found on_found)"
proof -
  let ?p = "sort off_found" and ?q = "sort on_found"
  have p: "0 \<le> ?p ! 0" "0 \<le> ?p ! 1" "0 \<le> ?p ! 2"
    using found_peaks(2)[OF assms(1), of fp _ 3 3 off_found] off l3 by simp_all
  have q: "0 \<le> ?q ! 0" "0 \<le> ?q ! 1"
    using found_peaks(2)[OF assms(1), of fp _ 2 3 on_found] on l2 by simp_all
  have "?p ! 0 \<le> ?p ! 2" using sorted_nth_le[of ?p 0 2] l3 by simp
  then have s1: "?p ! 0 + ?p ! 1 \<le> 2147483647" using s3 by linarith
  have m0: "peak_midpoint ?p 0 1 = Inr ((?p ! 0 + ?p ! 1) sdiv 2)"
    using p s1 l3 by (intro peak_midpoint_defined) simp_all
  have m1: "peak_midpoint ?p 1 2 = Inr ((?p ! 1 + ?p ! 2) sdiv 2)"
    using p s3 l3 by (intro peak_midpoint_defined) simp_all
  have m2: "peak_midpoint ?q 0 1 = Inr ((?q ! 0 + ?q ! 1) sdiv 2)"
    using q s2 l2 by (intro peak_midpoint_defined) simp_all
  show ?thesis
    using m0 m1 m2
    by (simp add: processSignals_def case_prod_beta off on report_of_def Let_def)
qed

subsection \<open>The report of the morse signals\<close>

lemma morse_frames_mean: "calculateHistogram (frame_histogram morse_frames) = Inr 90"
  by code_simp

lemma morse_frames_signals: "processStateChanges 90 morse_frames = morse_signals"
  by code_simp

lemma morse_signals_histograms:
  "duration_histograms morse_signals
     = ([(1, 2), (4, 1), (7, 2), (13, 2)], [(2, 2), (5, 2), (8, 1), (11, 1)])"
  by code_simp

lemma points_off:
  "turning_points [0, 1, 0, 0, 0, 0, 0, 1, 0, 0, 0, 0, 0, 1] = Inr [(1, 1), (7, 1), (13, 1)]"
  by code_simp

lemma points_on:
  "turning_points [0, 0, 1, 0, 0, 1, 0, 0, 0, 0, 0, 0] = Inr [(2, 1), (5, 1)]"
  by code_simp

text \<open>
  The peaks of the breaks all have the smoothed frequency 1, and so have the peaks of the
  pulses: their order is up to the sort, and the stable sort keeps them as found.
\<close>

lemma maximums_off:
  "get_local_maximums real_arithmetic stable_sort_points [(1, 2), (4, 1), (7, 2), (13, 2)] 3 3
     = Inr [1, 7, 13]"
  by (simp add: get_local_maximums_def vector_off smoothed_off[OF accurate_real_arithmetic]
        points_off stable_sort_points_def)

lemma maximums_on:
  "get_local_maximums real_arithmetic stable_sort_points [(2, 2), (5, 2), (8, 1), (11, 1)] 2 3
     = Inr [2, 5]"
  by (simp add: get_local_maximums_def vector_on smoothed_on[OF accurate_real_arithmetic]
        points_on stable_sort_points_def)

lemma morse_report_of: "report_of morse_signals [1, 7, 13] [2, 5] = morse_report"
  by (simp add: report_of_def morse_signals_histograms morse_report_def Let_def)
     (simp add: morse_signals_def morse_token_def)

lemma morse_decoded: "decodeMorse '' .- -. | - - | '' = Some ''AN TT ''"
  by code_simp

subsection \<open>The thresholds\<close>

text \<open>
  C5. When the peak detector (with a sort that returns what \<^verbatim>\<open>std::sort\<close> guarantees) finds
  3 peaks of the breaks and 2 peaks of the pulses, and the sums of adjacent peaks are
  \<^verbatim>\<open>int\<close>s, the signal stage returns the report of the specification: the peaks in ascending
  order; as the two thresholds of the breaks the sums of adjacent peaks divided by 2 with
  truncation, and likewise the threshold of the pulses. The peaks are indices of the smoothed
  array found once each, so that they ascend strictly; and the first threshold of the breaks
  is strictly below the second.
\<close>

theorem thresholds_are_midpoints:
  assumes "descending_permutation srt"
    and "get_local_maximums fp srt (fst (duration_histograms signals)) 3 3 = Inr off_found"
    and "get_local_maximums fp srt (snd (duration_histograms signals)) 2 3 = Inr on_found"
    and "length off_found = 3" and "length on_found = 2"
    and "sort off_found ! 1 + sort off_found ! 2 \<le> 2147483647"
    and "sort on_found ! 0 + sort on_found ! 1 \<le> 2147483647"
  shows "let r = report_of signals off_found on_found
         in processSignals fp srt signals = Inr r
          \<and> off_time_peaks r = sort off_found \<and> on_time_peaks r = sort on_found
          \<and> sorted_wrt (<) (off_time_peaks r) \<and> sorted_wrt (<) (on_time_peaks r)
          \<and> off_thresholds r = [(off_time_peaks r ! 0 + off_time_peaks r ! 1) sdiv 2,
                                  (off_time_peaks r ! 1 + off_time_peaks r ! 2) sdiv 2]
          \<and> on_thresholds r = [(on_time_peaks r ! 0 + on_time_peaks r ! 1) sdiv 2]
          \<and> off_thresholds r ! 0 < off_thresholds r ! 1"
proof -
  let ?p = "sort off_found" and ?q = "sort on_found"
  note off = found_peaks[OF assms(1), of fp _ 3 3 off_found]
  note on = found_peaks[OF assms(1), of fp _ 2 3 on_found]
  have sp: "sorted_wrt (<) ?p" using off(1) assms(2) by simp
  have sq: "sorted_wrt (<) ?q" using on(1) assms(3) by simp
  have p: "0 \<le> ?p ! 0" "0 \<le> ?p ! 1" "0 \<le> ?p ! 2"
    using off(2) assms(2,4) by simp_all
  have "?p ! 0 < ?p ! 1" "?p ! 1 < ?p ! 2"
    using sorted_wrt_nth_less[OF sp, of 0 1] sorted_wrt_nth_less[OF sp, of 1 2] assms(4)
    by simp_all
  then have "(?p ! 0 + ?p ! 1) div 2 < (?p ! 1 + ?p ! 2) div 2" by linarith
  then have strict: "(?p ! 0 + ?p ! 1) sdiv 2 < (?p ! 1 + ?p ! 2) sdiv 2"
    using p by (simp add: sdiv_2_nonneg)
  show ?thesis
    using report_is_produced[OF assms] sp sq strict
    by (simp add: Let_def) (simp add: report_of_def Let_def)
qed

subsection \<open>The tokens\<close>

lemma uint_threshold:
  "0 \<le> t \<Longrightarrow> t \<le> 2147483647 \<Longrightarrow> uint (word_of_int t :: 32 word) = t"
  by (simp add: uint_word_of_int)

lemma morse_token_classified:
  assumes "0 \<le> off0" "off0 \<le> off1" "off1 \<le> 2147483647" "0 \<le> on0" "on0 \<le> 2147483647"
  shows "classified off0 off1 on0 s (morse_token [off0, off1] [on0] s)"
proof -
  have "0 \<le> off1" "off0 \<le> 2147483647" using assms by simp_all
  then show ?thesis
    using assms
    by (simp add: classified_def morse_token_def Let_def word_less_alt word_le_def uint_threshold)
qed

text \<open>
  C7. When the peak detector finds 3 peaks of the breaks and 2 peaks of the pulses, and the
  sums of adjacent peaks are \<^verbatim>\<open>int\<close>s, the signal stage returns the report of the
  specification; its morse string is the concatenation of the tokens of the signals in
  order; and the token of every signal is the one the specification describes for its state
  and its duration, a duration equal to a threshold falling in the higher bucket. The first
  threshold of the breaks is at most the second, so that the three cases of a break leave
  no duration out.
\<close>

theorem signals_are_classified:
  assumes "descending_permutation srt"
    and "get_local_maximums fp srt (fst (duration_histograms signals)) 3 3 = Inr off_found"
    and "get_local_maximums fp srt (snd (duration_histograms signals)) 2 3 = Inr on_found"
    and "length off_found = 3" and "length on_found = 2"
    and "sort off_found ! 1 + sort off_found ! 2 \<le> 2147483647"
    and "sort on_found ! 0 + sort on_found ! 1 \<le> 2147483647"
  shows "let r = report_of signals off_found on_found;
             off0 = off_thresholds r ! 0; off1 = off_thresholds r ! 1; on0 = on_thresholds r ! 0
         in processSignals fp srt signals = Inr r
          \<and> off_thresholds r = [off0, off1] \<and> on_thresholds r = [on0]
          \<and> morse r = concat (map (morse_token [off0, off1] [on0]) signals)
          \<and> off0 \<le> off1
          \<and> (\<forall>s\<in>set signals. classified off0 off1 on0 s (morse_token [off0, off1] [on0] s))"
proof -
  let ?p = "sort off_found" and ?q = "sort on_found"
  let ?off0 = "(?p ! 0 + ?p ! 1) sdiv 2" and ?off1 = "(?p ! 1 + ?p ! 2) sdiv 2"
  let ?on0 = "(?q ! 0 + ?q ! 1) sdiv 2"
  note off = found_peaks[OF assms(1), of fp _ 3 3 off_found]
  note on = found_peaks[OF assms(1), of fp _ 2 3 on_found]
  have p: "0 \<le> ?p ! 0" "0 \<le> ?p ! 1" "0 \<le> ?p ! 2"
    using off(2) assms(2,4) by simp_all
  have q: "0 \<le> ?q ! 0" "0 \<le> ?q ! 1"
    using on(2) assms(3,5) by simp_all
  have p02: "?p ! 0 \<le> ?p ! 2"
    using sorted_nth_le[of ?p 0 2] assms(4) by simp
  have t0: "?off0 = (?p ! 0 + ?p ! 1) div 2" using p by (simp add: sdiv_2_nonneg)
  have t1: "?off1 = (?p ! 1 + ?p ! 2) div 2" using p by (simp add: sdiv_2_nonneg)
  have t2: "?on0 = (?q ! 0 + ?q ! 1) div 2" using q by (simp add: sdiv_2_nonneg)
  have b: "0 \<le> ?off0" "?off0 \<le> ?off1" "?off1 \<le> 2147483647" "0 \<le> ?on0" "?on0 \<le> 2147483647"
    unfolding t0 t1 t2 using p q p02 assms(6,7) by linarith+
  have "classified ?off0 ?off1 ?on0 s (morse_token [?off0, ?off1] [?on0] s)" for s
    using b by (rule morse_token_classified)
  then show ?thesis
    using report_is_produced[OF assms] b(2)
    by (simp add: Let_def) (simp add: report_of_def Let_def)
qed

subsection \<open>The morse signals\<close>

text \<open>
  With the arithmetic of the reals and the stable sort, the morse signals have the peaks 1,
  7, 13 and 2, 5: the thresholds are 4, 10 and 3.
\<close>

theorem thresholds_are_midpoints_witness:
  "descending_permutation stable_sort_points
   \<and> processSignals real_arithmetic stable_sort_points morse_signals = Inr morse_report
   \<and> off_time_peaks morse_report = [1, 7, 13] \<and> on_time_peaks morse_report = [2, 5]
   \<and> off_thresholds morse_report = [(1 + 7) sdiv 2, (7 + 13) sdiv 2]
   \<and> on_thresholds morse_report = [(2 + 5) sdiv 2]
   \<and> off_thresholds morse_report = [4, 10] \<and> on_thresholds morse_report = [3]
   \<and> off_thresholds morse_report ! 0 < off_thresholds morse_report ! 1"
proof -
  have h: "get_local_maximums real_arithmetic stable_sort_points
             (fst (duration_histograms morse_signals)) 3 3 = Inr [1, 7, 13]"
    "get_local_maximums real_arithmetic stable_sort_points
             (snd (duration_histograms morse_signals)) 2 3 = Inr [2, 5]"
    "length [1, 7, 13 :: int] = 3" "length [2, 5 :: int] = 2"
    "sort [1, 7, 13 :: int] ! 1 + sort [1, 7, 13 :: int] ! 2 \<le> 2147483647"
    "sort [2, 5 :: int] ! 0 + sort [2, 5 :: int] ! 1 \<le> 2147483647"
    by (simp_all add: morse_signals_histograms maximums_off maximums_on)
  have p: "off_time_peaks morse_report = [1, 7, 13]" "on_time_peaks morse_report = [2, 5]"
    and t: "off_thresholds morse_report = [4, 10]" "on_thresholds morse_report = [3]"
    by (simp_all add: morse_report_def)
  from thresholds_are_midpoints[OF descending_stable_sort_points h]
  have "processSignals real_arithmetic stable_sort_points morse_signals = Inr morse_report
      \<and> off_thresholds morse_report = [(1 + 7) sdiv 2, (7 + 13) sdiv 2]
      \<and> on_thresholds morse_report = [(2 + 5) sdiv 2]
      \<and> off_thresholds morse_report ! 0 < off_thresholds morse_report ! 1"
    by (simp add: Let_def morse_report_of p)
  then show ?thesis
    using descending_stable_sort_points p t by simp
qed

text \<open>
  Among the morse signals is a break of 4 frames, the first threshold: its token is the
  character separator.
\<close>

theorem signals_are_classified_witness:
  "descending_permutation stable_sort_points
   \<and> processSignals real_arithmetic stable_sort_points morse_signals = Inr morse_report
   \<and> morse morse_report = '' .- -. | - - | ''
   \<and> off_thresholds morse_report = [4, 10] \<and> on_thresholds morse_report = [3]
   \<and> morse_token [4, 10] [3] \<lparr>state = 0, duration = 4\<rparr> = '' ''
   \<and> classified 4 10 3 \<lparr>state = 0, duration = 4\<rparr> '' ''"
proof -
  have h: "get_local_maximums real_arithmetic stable_sort_points
             (fst (duration_histograms morse_signals)) 3 3 = Inr [1, 7, 13]"
    "get_local_maximums real_arithmetic stable_sort_points
             (snd (duration_histograms morse_signals)) 2 3 = Inr [2, 5]"
    "length [1, 7, 13 :: int] = 3" "length [2, 5 :: int] = 2"
    "sort [1, 7, 13 :: int] ! 1 + sort [1, 7, 13 :: int] ! 2 \<le> 2147483647"
    "sort [2, 5 :: int] ! 0 + sort [2, 5 :: int] ! 1 \<le> 2147483647"
    by (simp_all add: morse_signals_histograms maximums_off maximums_on)
  have t: "off_thresholds morse_report = [4, 10]" "on_thresholds morse_report = [3]"
    and m: "morse morse_report = '' .- -. | - - | ''"
    by (simp_all add: morse_report_def)
  have s: "\<lparr>state = 0, duration = 4\<rparr> \<in> set morse_signals"
    by (simp add: morse_signals_def)
  have k: "morse_token [4, 10] [3] \<lparr>state = 0, duration = 4\<rparr> = '' ''"
    by (simp add: morse_token_def)
  from signals_are_classified[OF descending_stable_sort_points h]
  have "processSignals real_arithmetic stable_sort_points morse_signals = Inr morse_report"
    and "\<forall>s\<in>set morse_signals. classified 4 10 3 s (morse_token [4, 10] [3] s)"
    by (simp_all add: Let_def morse_report_of t)
  with s k t m descending_stable_sort_points show ?thesis by fastforce
qed

subsection \<open>Too few peaks\<close>

text \<open>
  When the peak detector finds fewer than 3 peaks of the breaks or fewer than 2 peaks of the
  pulses, the signal stage ends in a fault: there is no report.
\<close>

lemma too_few_peaks_fault:
  assumes "get_local_maximums fp srt (fst (duration_histograms signals)) 3 3 = Inr off_found"
    and "get_local_maximums fp srt (snd (duration_histograms signals)) 2 3 = Inr on_found"
    and "length off_found < 3 \<or> length on_found < 2"
  shows "\<exists>e. processSignals fp srt signals = Inl e"
proof (cases "length off_found < 3")
  case True
  then have "vector_at (sort off_found) 2 = Inl IndexOutOfRange"
    by (simp add: vector_at_def)
  then have "\<exists>e. peak_midpoint (sort off_found) 0 1 = Inl e
               \<or> peak_midpoint (sort off_found) 1 2 = Inl e"
    by (cases "vector_at (sort off_found) 1") (auto simp: peak_midpoint_def)
  then show ?thesis
    using assms(1)
    by (cases "peak_midpoint (sort off_found) 0 1")
       (auto simp: processSignals_def case_prod_beta Let_def)
next
  case False
  then have "vector_at (sort on_found) 1 = Inl IndexOutOfRange"
    using assms(3) by (simp add: vector_at_def)
  then have "\<exists>e. peak_midpoint (sort on_found) 0 1 = Inl e"
    by (cases "vector_at (sort on_found) 0") (auto simp: peak_midpoint_def)
  then show ?thesis
    using assms(1,2)
    by (cases "peak_midpoint (sort off_found) 0 1"; cases "peak_midpoint (sort off_found) 1 2")
       (auto simp: processSignals_def case_prod_beta Let_def)
qed

section \<open>Whole runs\<close>

subsection \<open>SOS with every pulse of 3 frames\<close>

text \<open>
  The first signal is a break of duration 0 and the last break is not among the signals: the
  breaks have the histogram \<open>0: 1, 2: 6, 6: 2\<close>. With accurate arithmetic the smoothed array
  has a peak of frequency 3 or 4 at index 2 and rises to frequency 1 at its end, index 6;
  these are the only peaks.
\<close>

lemma vector_bare_off: "histogram_vector [(0, 1), (2, 6), (6, 2)] 7 = [1, 0, 6, 0, 0, 0, 2]"
  by code_simp

lemma smoothed_bare_off:
  assumes "accurate fp"
  shows "\<exists>a b c. gaussian_filter fp [1, 0, 6, 0, 0, 0, 2] 3 = Inr [0, a, b, c, 0, 0, 1]
           \<and> 0 \<le> a \<and> a \<le> 2 \<and> 3 \<le> b \<and> b \<le> 4 \<and> 0 \<le> c \<and> c \<le> 2"
proof -
  let ?s = "[1, 0, 6, 0, 0, 0, 2] :: int list"
  let ?t = "\<lambda>i. trunc (filter_sum fp ?s 3 i)"
  have near: "\<bar>filter_sum fp ?s 3 i - filter_sum real_arithmetic ?s 3 i\<bar> \<le> 1 / 1000" for i
    by (rule accurate_near[OF assms]) simp
  have g: "gaussian_filter fp ?s 3 = Inr (map ?t [0..<length ?s])"
    by (rule accurate_filter[OF assms]) simp_all
  have l: "map ?t [0..<length ?s] = [?t 0, ?t 1, ?t 2, ?t 3, ?t 4, ?t 5, ?t 6]"
    by (simp add: upt_rec eval_nat_numeral)
  have z: "?t 0 = 0" "?t 4 = 0" "?t 5 = 0"
    by (rule near_trunc_zero[OF near];
        use gaussian_bounds in
          \<open>simp add: filter_sum_def filter_term_def Let_def upto.simps real_arithmetic_simps\<close>)+
  have u: "?t 6 = 1"
    by (rule near_trunc_unique[OF near];
        use gaussian_bounds in
          \<open>simp add: filter_sum_def filter_term_def Let_def upto.simps real_arithmetic_simps\<close>)
  have a: "0 \<le> ?t 1 \<and> ?t 1 \<le> 2" and c: "0 \<le> ?t 3 \<and> ?t 3 \<le> 2"
    by (rule near_trunc_nonneg_le[OF near];
        use gaussian_bounds in
          \<open>simp add: filter_sum_def filter_term_def Let_def upto.simps real_arithmetic_simps\<close>)+
  have b: "3 \<le> ?t 2 \<and> ?t 2 \<le> 4"
    by (rule near_trunc_bounds[OF near];
        use gaussian_bounds in
          \<open>simp add: filter_sum_def filter_term_def Let_def upto.simps real_arithmetic_simps\<close>)
  show ?thesis
    using a b c unfolding g l z u by blast
qed

lemma points_bare_off:
  assumes "0 \<le> a" "a \<le> 2" "3 \<le> b" "b \<le> 4" "0 \<le> c" "c \<le> 2"
  shows "turning_points [0, a, b, c, 0, 0, 1] = Inr [(2, b), (6, 1)]"
  using assms
  by (simp add: turning_points_def turning_step_def turning_term_def sign_def upt_rec Let_def)

lemma maximums_bare_off:
  assumes "accurate fp" "descending_permutation srt"
  shows "get_local_maximums fp srt [(0, 1), (2, 6), (6, 2)] 3 3 = Inr [2, 6]"
proof -
  from smoothed_bare_off[OF assms(1)] obtain a b c where
    g: "gaussian_filter fp [1, 0, 6, 0, 0, 0, 2] 3 = Inr [0, a, b, c, 0, 0, 1]"
    and r: "0 \<le> a" "a \<le> 2" "3 \<le> b" "b \<le> 4" "0 \<le> c" "c \<le> 2"
    by blast
  have "srt [(2, b), (6, 1)] = [(2, b), (6, 1)]"
    using r(3) by (intro sorted_points_pair[OF assms(2)]) simp
  then show ?thesis
    by (simp add: get_local_maximums_def vector_bare_off g points_bare_off[OF r])
qed

text \<open>
  The pulses have the histogram \<open>3: 9\<close>. The smoothed array rises to its end, index 3, the
  only peak.
\<close>

lemma vector_sos_dots_on: "histogram_vector [(3, 9)] 4 = [0, 0, 0, 9]"
  by code_simp

lemma smoothed_sos_dots_on:
  assumes "accurate fp"
  shows "\<exists>a b. gaussian_filter fp [0, 0, 0, 9] 3 = Inr [0, 0, a, b]
           \<and> 0 \<le> a \<and> a \<le> 3 \<and> 4 \<le> b \<and> b \<le> 6"
proof -
  let ?s = "[0, 0, 0, 9] :: int list"
  let ?t = "\<lambda>i. trunc (filter_sum fp ?s 3 i)"
  have near: "\<bar>filter_sum fp ?s 3 i - filter_sum real_arithmetic ?s 3 i\<bar> \<le> 1 / 1000" for i
    by (rule accurate_near[OF assms]) simp
  have g: "gaussian_filter fp ?s 3 = Inr (map ?t [0..<length ?s])"
    by (rule accurate_filter[OF assms]) simp_all
  have l: "map ?t [0..<length ?s] = [?t 0, ?t 1, ?t 2, ?t 3]"
    by (simp add: upt_rec eval_nat_numeral)
  have z: "?t 0 = 0" "?t 1 = 0"
    by (rule near_trunc_zero[OF near];
        use gaussian_bounds in
          \<open>simp add: filter_sum_def filter_term_def Let_def upto.simps real_arithmetic_simps\<close>)+
  have a: "0 \<le> ?t 2 \<and> ?t 2 \<le> 3"
    by (rule near_trunc_nonneg_le[OF near];
        use gaussian_bounds in
          \<open>simp add: filter_sum_def filter_term_def Let_def upto.simps real_arithmetic_simps\<close>)
  have b: "4 \<le> ?t 3 \<and> ?t 3 \<le> 6"
    by (rule near_trunc_bounds[OF near];
        use gaussian_bounds in
          \<open>simp add: filter_sum_def filter_term_def Let_def upto.simps real_arithmetic_simps\<close>)
  show ?thesis
    using a b unfolding g l z by blast
qed

lemma points_sos_dots_on:
  assumes "0 \<le> a" "a \<le> 3" "4 \<le> b" "b \<le> 6"
  shows "turning_points [0, 0, a, b] = Inr [(3, b)]"
  using assms
  by (simp add: turning_points_def turning_step_def turning_term_def sign_def upt_rec Let_def)

lemma maximums_sos_dots_on:
  assumes "accurate fp" "descending_permutation srt"
  shows "get_local_maximums fp srt [(3, 9)] 2 3 = Inr [3]"
proof -
  from smoothed_sos_dots_on[OF assms(1)] obtain a b where
    g: "gaussian_filter fp [0, 0, 0, 9] 3 = Inr [0, 0, a, b]"
    and r: "0 \<le> a" "a \<le> 3" "4 \<le> b" "b \<le> 6"
    by blast
  show ?thesis
    by (simp add: get_local_maximums_def vector_sos_dots_on g points_sos_dots_on[OF r]
          sorted_points_single[OF assms(2)])
qed

lemma sos_dots_frames_mean: "calculateHistogram (frame_histogram sos_dots_frames) = Inr 82"
  by code_simp

lemma sos_dots_frames_signals: "processStateChanges 82 sos_dots_frames = sos_dots_signals"
  by code_simp

lemma sos_dots_signals_histograms:
  "duration_histograms sos_dots_signals = ([(0, 1), (2, 6), (6, 2)], [(3, 9)])"
  by code_simp

lemma sos_dots_signals_fault:
  assumes "accurate fp" "descending_permutation srt"
  shows "processSignals fp srt sos_dots_signals = Inl IndexOutOfRange"
  by (simp add: processSignals_def sos_dots_signals_histograms maximums_bare_off[OF assms]
        peak_midpoint_def vector_at_def midpoint_def)

subsection \<open>SOS with dashes of 9 frames\<close>

text \<open>The breaks are the same, with the same two peaks.\<close>

lemma sos_bare_frames_mean: "calculateHistogram (frame_histogram sos_bare_frames) = Inr 106"
  by code_simp

lemma sos_bare_frames_signals: "processStateChanges 106 sos_bare_frames = sos_bare_signals"
  by code_simp

lemma sos_bare_signals_histograms:
  "duration_histograms sos_bare_signals = ([(0, 1), (2, 6), (6, 2)], [(3, 6), (9, 3)])"
  by code_simp

lemma sos_bare_signals_fault:
  assumes "accurate fp" "descending_permutation srt"
  shows "processSignals fp srt sos_bare_signals = Inl IndexOutOfRange"
  by (simp add: processSignals_def sos_bare_signals_histograms maximums_bare_off[OF assms]
        peak_midpoint_def vector_at_def midpoint_def)

text \<open>
  C4 fails on the code. The frames encode SOS with every pulse 3 frames long and breaks of 2,
  2, 6, 2, 2, 6, 2, 2 and 20 frames, the first dot at frame 0. Whatever the accurate
  arithmetic and the sort: the first signal is a break of duration 0 and the last break, of
  20 frames, is not among the signals (nothing follows the loop of the state changes); the
  breaks have two peaks only, 2 and 6, and the second threshold of the breaks reads the third
  of three peaks; the run ends in an index out of range and reports neither a morse string
  nor a message. The pulses, all of one length, have the single peak 3 where two are read.
  With dashes of 9 frames the breaks are the same and the run ends in the same fault. And
  the token stream \<open>... --- ...\<close> without a space before and after it is decoded to
  \<open>...O...\<close>, since a table entry is replaced only between two spaces.
\<close>

theorem sos_all_dots_out_of_range:
  assumes "accurate fp" "descending_permutation srt"
  shows "calculateHistogram (frame_histogram sos_dots_frames) = Inr 82
       \<and> processStateChanges 82 sos_dots_frames = sos_dots_signals
       \<and> duration_histograms sos_dots_signals = ([(0, 1), (2, 6), (6, 2)], [(3, 9)])
       \<and> get_local_maximums fp srt [(0, 1), (2, 6), (6, 2)] 3 3 = Inr [2, 6]
       \<and> get_local_maximums fp srt [(3, 9)] 2 3 = Inr [3]
       \<and> processSignals fp srt sos_dots_signals = Inl IndexOutOfRange
       \<and> run fp srt sos_dots_frames = Some (Inl IndexOutOfRange)
       \<and> run fp srt sos_bare_frames = Some (Inl IndexOutOfRange)
       \<and> decodeMorse ''... --- ...'' = Some ''...O...''"
proof -
  have "decodeMorse ''... --- ...'' = Some ''...O...''" by code_simp
  then show ?thesis
    by (simp add: run_def sos_dots_frames_mean sos_dots_frames_signals sos_dots_signals_histograms
          sos_dots_signals_fault[OF assms] sos_bare_frames_mean sos_bare_frames_signals
          sos_bare_signals_fault[OF assms] maximums_bare_off[OF assms]
          maximums_sos_dots_on[OF assms])
qed

text \<open>The arithmetic of the reals and the stable sort are such an arithmetic and such a sort.\<close>

theorem sos_all_dots_out_of_range_witness:
  "accurate real_arithmetic \<and> descending_permutation stable_sort_points
   \<and> processStateChanges 82 sos_dots_frames = sos_dots_signals
   \<and> get_local_maximums real_arithmetic stable_sort_points [(0, 1), (2, 6), (6, 2)] 3 3
       = Inr [2, 6]
   \<and> get_local_maximums real_arithmetic stable_sort_points [(3, 9)] 2 3 = Inr [3]
   \<and> run real_arithmetic stable_sort_points sos_dots_frames = Some (Inl IndexOutOfRange)
   \<and> run real_arithmetic stable_sort_points sos_bare_frames = Some (Inl IndexOutOfRange)"
  using sos_all_dots_out_of_range[OF accurate_real_arithmetic descending_stable_sort_points]
    accurate_real_arithmetic descending_stable_sort_points
  by simp

subsection \<open>Constant brightness and no frames\<close>

lemma constant_mean: "calculateHistogram (frame_histogram (frames_of [128, 128, 128])) = Inr 128"
  by code_simp

lemma constant_signals:
  "processStateChanges 128 (frames_of [128, 128, 128]) = [\<lparr>state = 0, duration = 0\<rparr>]"
  by code_simp

lemma constant_histograms:
  "duration_histograms [\<lparr>state = 0, duration = 0\<rparr>] = ([(0, 1)], [])"
  by code_simp

lemma constant_maximums:
  assumes "accurate fp" "descending_permutation srt"
  shows "get_local_maximums fp srt [(0, 1)] 3 3 = Inr []"
proof -
  have v: "histogram_vector [(0, 1)] (Suc 0) = [1]" by code_simp
  have "gaussian_filter fp [1] 3 = Inr (map (\<lambda>i. trunc (filter_sum fp [1] 3 i)) [0..<length [1 :: int]])"
    by (rule accurate_filter[OF assms(1)]) simp_all
  then have g: "gaussian_filter fp [1] 3 = Inr [trunc (filter_sum fp [1] 3 0)]" by simp
  show ?thesis
    by (simp add: get_local_maximums_def v g turning_points_def sorted_points_Nil[OF assms(2)])
qed

text \<open>
  Whatever the arithmetic of doubles and whatever the sort returns, the signal stage ends in
  a fault on this signal: should the breaks get their thresholds, the histogram of the pulses
  is empty, and the peak detector dereferences \<^verbatim>\<open>vf.rbegin()\<close> of an empty map.
\<close>

lemma constant_signal_faults: "\<exists>e. processSignals fp srt [\<lparr>state = 0, duration = 0\<rparr>] = Inl e"
proof -
  have "get_local_maximums fp srt [] 2 3 = Inl EmptyMapAccess"
    by (simp add: get_local_maximums_def)
  then show ?thesis
    by (cases "get_local_maximums fp srt [(0, 1)] 3 3";
        cases "peak_midpoint (sort (projr (get_local_maximums fp srt [(0, 1)] 3 3))) 0 1";
        cases "peak_midpoint (sort (projr (get_local_maximums fp srt [(0, 1)] 3 3))) 1 2")
       (simp_all add: processSignals_def constant_histograms Let_def)
qed

text \<open>
  C1 fails on the code. Three frames of luminance 128 have the mean 128 and are all bright:
  the only signal is a break of duration 0, the histogram of the breaks has no peak
  (whatever the accurate arithmetic and the sort), and the first threshold reads
  \<^verbatim>\<open>off_time_peaks[0]\<close> of an empty vector. There is no check of the number of peaks and
  no error value for too few of them.
\<close>

theorem constant_brightness_out_of_range:
  assumes "accurate fp" "descending_permutation srt"
  shows "calculateHistogram (frame_histogram (frames_of [128, 128, 128])) = Inr 128
       \<and> processStateChanges 128 (frames_of [128, 128, 128]) = [\<lparr>state = 0, duration = 0\<rparr>]
       \<and> get_local_maximums fp srt [(0, 1)] 3 3 = Inr []
       \<and> processSignals fp srt [\<lparr>state = 0, duration = 0\<rparr>] = Inl IndexOutOfRange
       \<and> run fp srt (frames_of [128, 128, 128]) = Some (Inl IndexOutOfRange)"
proof -
  have "processSignals fp srt [\<lparr>state = 0, duration = 0\<rparr>] = Inl IndexOutOfRange"
    by (simp add: processSignals_def constant_histograms constant_maximums[OF assms]
          peak_midpoint_def vector_at_def)
  then show ?thesis
    by (simp add: run_def constant_mean constant_signals constant_maximums[OF assms])
qed

text \<open>The arithmetic of the reals and the stable sort are such an arithmetic and such a sort.\<close>

theorem constant_brightness_out_of_range_witness:
  "accurate real_arithmetic \<and> descending_permutation stable_sort_points
   \<and> calculateHistogram (frame_histogram (frames_of [128, 128, 128])) = Inr 128
   \<and> processStateChanges 128 (frames_of [128, 128, 128]) = [\<lparr>state = 0, duration = 0\<rparr>]
   \<and> get_local_maximums real_arithmetic stable_sort_points [(0, 1)] 3 3 = Inr []
   \<and> processSignals real_arithmetic stable_sort_points [\<lparr>state = 0, duration = 0\<rparr>]
       = Inl IndexOutOfRange
   \<and> run real_arithmetic stable_sort_points (frames_of [128, 128, 128])
       = Some (Inl IndexOutOfRange)"
  using constant_brightness_out_of_range[OF accurate_real_arithmetic descending_stable_sort_points]
    accurate_real_arithmetic descending_stable_sort_points
  by simp

text \<open>
  C3 fails on the code. With no frames the histogram is all zero, \<^verbatim>\<open>sum\<close> is 0 and
  \<^verbatim>\<open>m_mean_luminance /= sum\<close> divides by zero, whatever the arithmetic of doubles and the
  sort. There is no check for an empty input.
\<close>

theorem no_frames_division_by_zero:
  "calculateHistogram (frame_histogram []) = Inl DivisionByZero
   \<and> run fp srt [] = Some (Inl DivisionByZero)"
proof -
  have "calculateHistogram (frame_histogram []) = Inl DivisionByZero" by code_simp
  then show ?thesis by (simp add: run_def)
qed

subsection \<open>Every run returns\<close>

lemma run_returns: "\<exists>r. run fp srt frames = Some r"
proof (cases "calculateHistogram (frame_histogram frames)")
  case (Inl e)
  then show ?thesis by (simp add: run_def)
next
  case (Inr m)
  show ?thesis
  proof (cases "processSignals fp srt (processStateChanges m frames)")
    case (Inl e)
    then show ?thesis using Inr by (simp add: run_def)
  next
    case r: (Inr r)
    obtain msg where "decodeMorse (morse r) = Some msg"
      using decodeMorse_returns by blast
    then show ?thesis using Inr r by (simp add: run_def)
  qed
qed

end
